theory Spec2Isabelle
  imports
    Complex_Main
    "HOL-Library.Char_ord"
    "HOL-Library.FSet"
    "HOL-Library.List_Lexorder"
    "HOL-Library.Product_Lexorder"
    "HOL-Library.Multiset"
    "HOL-Library.Sublist"
begin

section \<open>The article consolidation pipeline of handler.py\<close>

text \<open>
  The handler fetches raw articles, normalizes them into dictionaries with a fixed set
  of keys, and runs three pure stages over the list: \<^verbatim>\<open>_dedup_by_url\<close>,
  \<^verbatim>\<open>_dedup_by_title\<close> and \<^verbatim>\<open>_rerank\<close>. The result is cut to the
  requested limit by \<^verbatim>\<open>execute\<close>.

  Python strings are modelled as \<^typ>\<open>string\<close>: a character is one code point below
  256. The classification of characters (letters, digits, white space, lower-casing)
  is the one Python's Unicode-aware functions compute on these code points.
\<close>

subsection \<open>Articles\<close>

text \<open>
  The dictionary built by \<^verbatim>\<open>_normalize_article\<close>: every key is always present,
  so \<^verbatim>\<open>article.get(k, default)\<close> and \<^verbatim>\<open>article[k]\<close> both read the field.
\<close>

record article =
  title :: string
  source :: string
  date :: string
  published_at :: string
  description :: string
  url :: string
  image_url :: string
  also_reported_by :: "string list"

subsection \<open>Character classes\<close>

definition is_ascii_upper :: "char \<Rightarrow> bool" where
  "is_ascii_upper c = (CHR ''A'' \<le> c \<and> c \<le> CHR ''Z'')"

definition is_ascii_lower :: "char \<Rightarrow> bool" where
  "is_ascii_lower c = (CHR ''a'' \<le> c \<and> c \<le> CHR ''z'')"

definition is_ascii_digit :: "char \<Rightarrow> bool" where
  "is_ascii_digit c = (CHR ''0'' \<le> c \<and> c \<le> CHR ''9'')"

definition is_ascii_alpha :: "char \<Rightarrow> bool" where
  "is_ascii_alpha c = (is_ascii_upper c \<or> is_ascii_lower c)"

text \<open>
  \<^verbatim>\<open>str.lower()\<close> changes the letters A to Z and the upper-case letters 0xC0 to 0xDE
  (the multiplication sign 0xD7 is no letter); each moves up by 0x20.
\<close>

definition is_upper :: "char \<Rightarrow> bool" where
  "is_upper c = (is_ascii_upper c \<or> (CHR 0xC0 \<le> c \<and> c \<le> CHR 0xD6)
                 \<or> (CHR 0xD8 \<le> c \<and> c \<le> CHR 0xDE))"

definition lower_char :: "char \<Rightarrow> char" where
  "lower_char c = (if is_upper c then char_of (of_char c + (32::nat)) else c)"

definition lower :: "string \<Rightarrow> string" where
  "lower s = map lower_char s"

text \<open>
  White space as \<^verbatim>\<open>str.split()\<close>, \<^verbatim>\<open>str.strip()\<close> and the regular expression
  class \<^verbatim>\<open>\s\<close> see it: tab, line feed, vertical tab, form feed, carriage return, the
  four separators 0x1C to 0x1F, the space, the next-line control 0x85 and the no-break
  space 0xA0.
\<close>

definition is_space :: "char \<Rightarrow> bool" where
  "is_space c = ((CHR 0x09 \<le> c \<and> c \<le> CHR 0x0D) \<or> (CHR 0x1C \<le> c \<and> c \<le> CHR 0x20)
                 \<or> c = CHR 0x85 \<or> c = CHR 0xA0)"

text \<open>
  The regular expression class \<^verbatim>\<open>\w\<close>: letters, digits and the underscore. Above
  the ASCII range these are the ordinal indicators 0xAA and 0xBA, the superscript
  digits 0xB2, 0xB3 and 0xB9, the micro sign 0xB5, the fractions 0xBC to 0xBE, and the
  letters 0xC0 to 0xFF without the multiplication and division signs 0xD7 and 0xF7.
\<close>

definition is_word_char :: "char \<Rightarrow> bool" where
  "is_word_char c =
     (is_ascii_alpha c \<or> is_ascii_digit c \<or> c = CHR ''_''
      \<or> c = CHR 0xAA \<or> c = CHR 0xB2 \<or> c = CHR 0xB3 \<or> c = CHR 0xB5
      \<or> c = CHR 0xB9 \<or> c = CHR 0xBA \<or> (CHR 0xBC \<le> c \<and> c \<le> CHR 0xBE)
      \<or> (CHR 0xC0 \<le> c \<and> c \<le> CHR 0xD6) \<or> (CHR 0xD8 \<le> c \<and> c \<le> CHR 0xF6)
      \<or> CHR 0xF8 \<le> c)"

subsection \<open>URL normalization\<close>

text \<open>
  \<^verbatim>\<open>_normalize_url\<close> calls the standard library: \<^verbatim>\<open>urlparse\<close>, then
  \<^verbatim>\<open>urlunparse\<close> on scheme, host and path with empty parameters, query and fragment;
  any exception gives the raw URL back. The library functions are modelled after
  \<^verbatim>\<open>urllib/parse.py\<close> and \<^verbatim>\<open>ipaddress.py\<close> of CPython 3.11.10.
  \<^verbatim>\<open>urlparse\<close> raises \<^verbatim>\<open>ValueError\<close> when the host part has an unmatched
  square bracket or a bracketed host that is neither an IPv6 address nor an IPvFuture
  literal; that is \<open>None\<close> here. Its last check, on the compatibility normalization of
  a host outside ASCII, never raises on code points below 256.
\<close>

definition uses_netloc :: "string list" where
  "uses_netloc = ['''', ''ftp'', ''http'', ''gopher'', ''nntp'', ''telnet'',
     ''imap'', ''wais'', ''file'', ''mms'', ''https'', ''shttp'',
     ''snews'', ''prospero'', ''rtsp'', ''rtsps'', ''rtspu'', ''rsync'',
     ''svn'', ''svn+ssh'', ''sftp'', ''nfs'', ''git'', ''git+ssh'',
     ''ws'', ''wss'']"

definition uses_params :: "string list" where
  "uses_params = ['''', ''ftp'', ''hdl'', ''prospero'', ''http'', ''imap'',
     ''https'', ''shttp'', ''rtsp'', ''rtsps'', ''rtspu'', ''sip'',
     ''sips'', ''mms'', ''sftp'', ''tel'']"

definition is_scheme_char :: "char \<Rightarrow> bool" where
  "is_scheme_char c = (is_ascii_alpha c \<or> is_ascii_digit c \<or> c \<in> set ''+-.'')"

record parse_result =
  pr_scheme :: string
  pr_netloc :: string
  pr_path :: string
  pr_params :: string
  pr_query :: string
  pr_fragment :: string

text \<open>The scheme prefix: \<^verbatim>\<open>i = url.find(':')\<close>, accepted when \<^verbatim>\<open>i > 0\<close>, the first
  character is an ASCII letter and every character before the colon is a scheme
  character.\<close>

definition split_scheme :: "string \<Rightarrow> string \<times> string" where
  "split_scheme u =
     (let pre = takeWhile (\<lambda>c. c \<noteq> CHR '':'') u in
      if CHR '':'' \<in> set u \<and> pre \<noteq> [] \<and> is_ascii_alpha (hd pre) \<and> list_all is_scheme_char pre
      then (lower pre, drop (length pre + 1) u)
      else ([], u))"

definition is_netloc_delim :: "char \<Rightarrow> bool" where
  "is_netloc_delim c = (c = CHR ''/'' \<or> c = CHR ''?'' \<or> c = CHR ''#'')"

definition splitnetloc :: "string \<Rightarrow> string \<times> string" where
  "splitnetloc u =
     (let body = drop 2 u in
      (takeWhile (\<lambda>c. \<not> is_netloc_delim c) body, dropWhile (\<lambda>c. \<not> is_netloc_delim c) body))"

text \<open>\<^verbatim>\<open>s.split(c, 1)\<close> for a character that occurs in \<open>s\<close>.\<close>

definition split_once :: "char \<Rightarrow> string \<Rightarrow> string \<times> string" where
  "split_once c s = (takeWhile (\<lambda>x. x \<noteq> c) s, drop 1 (dropWhile (\<lambda>x. x \<noteq> c) s))"

text \<open>\<^verbatim>\<open>s.split(c)\<close>: the pieces between the occurrences of \<open>c\<close>.\<close>

fun split_on :: "char \<Rightarrow> string \<Rightarrow> string list" where
  "split_on c [] = [[]]"
| "split_on c (x # xs) =
     (if x = c then [] # split_on c xs
      else case split_on c xs of
             [] \<Rightarrow> [[x]]
           | w # ws \<Rightarrow> (x # w) # ws)"

definition is_hex_digit :: "char \<Rightarrow> bool" where
  "is_hex_digit c = (is_ascii_digit c \<or> (CHR ''a'' \<le> c \<and> c \<le> CHR ''f'')
                     \<or> (CHR ''A'' \<le> c \<and> c \<le> CHR ''F''))"

definition dec_value :: "string \<Rightarrow> nat" where
  "dec_value s = foldl (\<lambda>n c. 10 * n + (of_char c - 48)) 0 s"

text \<open>\<^verbatim>\<open>IPv4Address._parse_octet\<close> returns (rather than raises) on one to three
  ASCII digits without a leading zero, of value at most 255.\<close>

definition parse_octet_ok :: "string \<Rightarrow> bool" where
  "parse_octet_ok s =
     (s \<noteq> [] \<and> list_all is_ascii_digit s \<and> length s \<le> 3
      \<and> (s = ''0'' \<or> take 1 s \<noteq> ''0'') \<and> dec_value s \<le> 255)"

definition ipv4_ok :: "string \<Rightarrow> bool" where
  "ipv4_ok s =
     (CHR ''/'' \<notin> set s \<and> s \<noteq> [] \<and>
      (let octets = split_on (CHR ''.'') s
       in length octets = 4 \<and> list_all parse_octet_ok octets))"

text \<open>\<^verbatim>\<open>IPv6Address._parse_hextet\<close> returns on one to four hexadecimal digits.\<close>

definition parse_hextet_ok :: "string \<Rightarrow> bool" where
  "parse_hextet_ok h = (list_all is_hex_digit h \<and> length h \<le> 4 \<and> h \<noteq> [])"

text \<open>
  The part of \<^verbatim>\<open>IPv6Address._ip_int_from_string\<close> after the IPv4 suffix is
  replaced: at most nine parts; an empty part strictly inside marks the skipped run
  \<^verbatim>\<open>::\<close>, of which there is at most one; an empty first or last part must belong to
  it; without it there are exactly eight parts. The parts before and after the run
  are hextets.
\<close>

definition ipv6_parts_ok :: "string list \<Rightarrow> bool" where
  "ipv6_parts_ok parts =
     (length parts \<le> 9 \<and>
      (case filter (\<lambda>i. parts ! i = []) [1 ..< length parts - 1] of
         [] \<Rightarrow>
           length parts = 8 \<and> hd parts \<noteq> [] \<and> last parts \<noteq> [] \<and>
           list_all parse_hextet_ok parts
       | [skip_index] \<Rightarrow>
           (let parts_hi = (if hd parts = [] then skip_index - 1 else skip_index);
                parts_lo = (if last parts = [] then length parts - skip_index - 2
                            else length parts - skip_index - 1)
            in (parts_hi = 0 \<or> hd parts \<noteq> []) \<and> (parts_lo = 0 \<or> last parts \<noteq> []) \<and>
               parts_hi + parts_lo \<le> 7 \<and>
               list_all parse_hextet_ok (take parts_hi parts) \<and>
               list_all parse_hextet_ok (drop (length parts - parts_lo) parts))
       | _ \<Rightarrow> False))"

text \<open>
  \<^verbatim>\<open>IPv6Address(s)\<close> returns: no slash, a scope id after \<^verbatim>\<open>%\<close> that is not empty
  and has no further \<^verbatim>\<open>%\<close>, at least three parts between colons, and a last part
  with a dot that is an IPv4 address; the two hextets that stand for that address are
  valid whatever its value, \<open>0\<close> stands for each.
\<close>

definition ipv6_ok :: "string \<Rightarrow> bool" where
  "ipv6_ok s =
     (CHR ''/'' \<notin> set s \<and>
      (let (addr, scope_ok) =
             (if CHR ''%'' \<in> set s
              then (takeWhile (\<lambda>c. c \<noteq> CHR ''%'') s,
                    (let scope_id = drop 1 (dropWhile (\<lambda>c. c \<noteq> CHR ''%'') s)
                     in scope_id \<noteq> [] \<and> CHR ''%'' \<notin> set scope_id))
              else (s, True));
           parts = split_on (CHR '':'') addr
       in scope_ok \<and> addr \<noteq> [] \<and> 3 \<le> length parts \<and>
          (if CHR ''.'' \<in> set (last parts)
           then ipv4_ok (last parts) \<and> ipv6_parts_ok (butlast parts @ [''0'', ''0''])
           else ipv6_parts_ok parts)))"

text \<open>
  \<^verbatim>\<open>_check_bracketed_host\<close> returns: a host that starts with \<^verbatim>\<open>v\<close> matches
  \<^verbatim>\<open>v[a-fA-F0-9]+\..+\<close>, any other host is an IPv6 address (an IPv4 address in
  brackets is refused).
\<close>

definition check_bracketed_host :: "string \<Rightarrow> bool" where
  "check_bracketed_host h =
     (if take 1 h = ''v'' then
        (let digits = takeWhile is_hex_digit (drop 1 h);
             rest = drop (1 + length digits) h
         in digits \<noteq> [] \<and> take 1 rest = ''.'' \<and> 2 \<le> length rest)
      else \<not> ipv4_ok h \<and> ipv6_ok h)"

definition urlsplit :: "string \<Rightarrow> (string \<times> string \<times> string \<times> string \<times> string) option" where
  "urlsplit u0 =
     (let u1 = dropWhile (\<lambda>c. c \<le> CHR 0x20) u0;
          u2 = filter (\<lambda>c. c \<noteq> CHR 0x09 \<and> c \<noteq> CHR 0x0D \<and> c \<noteq> CHR 0x0A) u1;
          (scheme, u3) = split_scheme u2;
          (netloc, u4) = (if take 2 u3 = ''//'' then splitnetloc u3 else ([], u3));
          bracketed_host = takeWhile (\<lambda>c. c \<noteq> CHR '']'')
                             (drop 1 (dropWhile (\<lambda>c. c \<noteq> CHR ''['') netloc))
      in if (CHR ''['' \<in> set netloc \<and> CHR '']'' \<notin> set netloc) \<or>
            (CHR '']'' \<in> set netloc \<and> CHR ''['' \<notin> set netloc)
         then None
         else if CHR ''['' \<in> set netloc \<and> CHR '']'' \<in> set netloc
                 \<and> \<not> check_bracketed_host bracketed_host
         then None
         else
           let (u5, fragment) = (if CHR ''#'' \<in> set u4 then split_once (CHR ''#'') u4 else (u4, []));
               (u6, query) = (if CHR ''?'' \<in> set u5 then split_once (CHR ''?'') u5 else (u5, []))
           in Some (scheme, netloc, u6, query, fragment))"

text \<open>\<^verbatim>\<open>_splitparams\<close>: the parameters start at the first semicolon of the last path
  segment.\<close>

definition splitparams :: "string \<Rightarrow> string \<times> string" where
  "splitparams u =
     (if CHR ''/'' \<in> set u then
        (let last_seg = rev (takeWhile (\<lambda>c. c \<noteq> CHR ''/'') (rev u));
             head = take (length u - length last_seg) u
         in if CHR '';'' \<in> set last_seg
            then (head @ takeWhile (\<lambda>c. c \<noteq> CHR '';'') last_seg,
                  drop 1 (dropWhile (\<lambda>c. c \<noteq> CHR '';'') last_seg))
            else (u, []))
      else split_once (CHR '';'') u)"

definition urlparse :: "string \<Rightarrow> parse_result option" where
  "urlparse u =
     (case urlsplit u of
        None \<Rightarrow> None
      | Some (scheme, netloc, p, query, fragment) \<Rightarrow>
          (let (p', params) = (if scheme \<in> set uses_params \<and> CHR '';'' \<in> set p
                               then splitparams p else (p, []))
           in Some \<lparr>pr_scheme = scheme, pr_netloc = netloc, pr_path = p',
                    pr_params = params, pr_query = query, pr_fragment = fragment\<rparr>))"

definition urlunsplit :: "string \<Rightarrow> string \<Rightarrow> string \<Rightarrow> string \<Rightarrow> string \<Rightarrow> string" where
  "urlunsplit scheme netloc p query fragment =
     (let u1 = (if netloc \<noteq> [] \<or> (scheme \<noteq> [] \<and> scheme \<in> set uses_netloc) \<or> take 2 p = ''//''
                then ''//'' @ netloc @ (if p \<noteq> [] \<and> take 1 p \<noteq> ''/'' then ''/'' @ p else p)
                else p);
          u2 = (if scheme \<noteq> [] then scheme @ '':'' @ u1 else u1);
          u3 = (if query \<noteq> [] then u2 @ ''?'' @ query else u2)
      in if fragment \<noteq> [] then u3 @ ''#'' @ fragment else u3)"

definition urlunparse :: "parse_result \<Rightarrow> string" where
  "urlunparse r =
     urlunsplit (pr_scheme r) (pr_netloc r)
       (if pr_params r \<noteq> [] then pr_path r @ '';'' @ pr_params r else pr_path r)
       (pr_query r) (pr_fragment r)"

definition normalize_url :: "string \<Rightarrow> string" where
  "normalize_url u =
     (case urlparse u of
        None \<Rightarrow> u
      | Some p \<Rightarrow> urlunparse \<lparr>pr_scheme = pr_scheme p, pr_netloc = pr_netloc p, pr_path = pr_path p,
                              pr_params = [], pr_query = [], pr_fragment = []\<rparr>)"

subsection \<open>URL deduplication\<close>

text \<open>
  \<^verbatim>\<open>seen_urls\<close> is a Python dictionary, which keeps its keys in insertion order and
  is read back with \<^verbatim>\<open>list(seen_urls.values())\<close>: an association list, extended
  at the end. A key is stored once only, since the loop skips a key already present.
\<close>

definition url_step :: "(string \<times> article) list \<Rightarrow> article \<Rightarrow> (string \<times> article) list" where
  "url_step seen_urls a =
     (let key = normalize_url (url a) in
      if key = [] \<or> key \<in> fst ` set seen_urls then seen_urls
      else seen_urls @ [(key, a)])"

definition dedup_by_url :: "article list \<Rightarrow> article list" where
  "dedup_by_url articles = map snd (foldl url_step [] articles)"

subsection \<open>Exceptions\<close>

text \<open>
  The stages have no \<^verbatim>\<open>raise\<close> of their own. Two Python operations they use can
  raise: indexing a list out of range and dividing by zero. Both are results here, so
  that a stage that cannot raise is a stage that returns \<open>Inr\<close>.
\<close>

datatype py_error = IndexError | ZeroDivisionError

definition get_item :: "'a list \<Rightarrow> nat \<Rightarrow> py_error + 'a" where
  "get_item xs i = (if i < length xs then Inr (xs ! i) else Inl IndexError)"

subsection \<open>Significant words and Jaccard similarity\<close>

definition STOP_WORDS :: "string list" where
  "STOP_WORDS =
    [''the'', ''a'', ''an'', ''in'', ''on'', ''at'', ''to'', ''for'', ''of'', ''is'', ''are'', ''was'',
     ''were'', ''and'', ''or'', ''but'', ''not'', ''with'', ''from'', ''by'', ''as'', ''it'', ''its'',
     ''this'', ''that'', ''has'', ''have'', ''had'', ''be'', ''been'', ''will'', ''would'', ''can'',
     ''could'', ''may'', ''might'', ''do'', ''does'', ''did'', ''up'', ''out'', ''over'', ''after'',
     ''into'', ''than'', ''how'', ''what'', ''when'', ''who'', ''all'', ''more'', ''about'']"

text \<open>\<^verbatim>\<open>re.sub(r"[^\w\s]", "", s)\<close>: keep word characters and white space.\<close>

definition strip_punct :: "string \<Rightarrow> string" where
  "strip_punct s = filter (\<lambda>c. is_word_char c \<or> is_space c) s"

text \<open>\<^verbatim>\<open>s.split()\<close>: the maximal runs of characters that are not white space. The
  first argument is the run read so far, in reverse.\<close>

fun split_run :: "string \<Rightarrow> string \<Rightarrow> string list" where
  "split_run cur [] = (if cur = [] then [] else [rev cur])"
| "split_run cur (c # cs) =
     (if is_space c then (if cur = [] then split_run [] cs else rev cur # split_run [] cs)
      else split_run (c # cur) cs)"

definition split_ws :: "string \<Rightarrow> string list" where
  "split_ws s = split_run [] s"

text \<open>A Python set is finite: \<^typ>\<open>string fset\<close>.\<close>

definition title_words :: "string \<Rightarrow> string fset" where
  "title_words t =
     (let words = split_ws (strip_punct (lower t))
      in fset_of_list (filter (\<lambda>w. w \<notin> set STOP_WORDS \<and> length w > 2) words))"

text \<open>
  \<^verbatim>\<open>_jaccard\<close> returns a float, the quotient of two set sizes, which the caller
  compares with \<open>0.5\<close>. The quotient is modelled as the exact rational. Python's
  division of integers is correctly rounded and \<open>0.5\<close> is a float, so for sets of
  fewer than \<open>2^53\<close> words the float exceeds \<open>0.5\<close> exactly when the rational does.
  The division raises when the union is empty.
\<close>

definition jaccard :: "string fset \<Rightarrow> string fset \<Rightarrow> py_error + rat" where
  "jaccard a b =
     (if a = {||} \<or> b = {||} then Inr 0
      else
        let union = a |\<union>| b in
        if fcard union = 0 then Inl ZeroDivisionError
        else Inr (of_nat (fcard (a |\<inter>| b)) / of_nat (fcard union)))"

subsection \<open>Title deduplication\<close>

text \<open>
  The variables of the inner loop of \<^verbatim>\<open>_dedup_by_title\<close>: the current
  \<^verbatim>\<open>article\<close> (the representative), its word set \<^verbatim>\<open>words_i\<close>, the list
  \<^verbatim>\<open>also_reported_by\<close> under construction, and the set \<^verbatim>\<open>used\<close> of consumed
  indices.
\<close>

record scan_state =
  st_article :: article
  st_words_i :: "string fset"
  st_also_reported_by :: "string list"
  st_used :: "nat set"

text \<open>The pair \<^verbatim>\<open>(bool(a.get("image_url")), len(a.get("description", "")))\<close>,
  compared as Python compares tuples: lexicographically, \<open>False\<close> below \<open>True\<close>.\<close>

definition rep_score :: "article \<Rightarrow> bool \<times> nat" where
  "rep_score a = (image_url a \<noteq> [], length (description a))"

abbreviation words_of :: "article \<Rightarrow> string fset" where
  "words_of a \<equiv> title_words (title a)"

text \<open>The merge test of the inner loop, \<^verbatim>\<open>_jaccard(words_i, words_j) > 0.5\<close>, as a
  predicate: it holds when the call returns a similarity above one half.\<close>

definition above_half :: "string fset \<Rightarrow> string fset \<Rightarrow> bool" where
  "above_half words_i words_j =
     (case jaccard words_i words_j of Inl e \<Rightarrow> False | Inr similarity \<Rightarrow> 1 / 2 < similarity)"

text \<open>One pass of the inner loop body, for index \<open>j\<close> of the cluster started at \<open>i\<close>.\<close>

definition merge_step :: "article list \<Rightarrow> nat \<Rightarrow> nat \<Rightarrow> scan_state \<Rightarrow> py_error + scan_state" where
  "merge_step articles i j st =
     (if j \<in> st_used st then Inr st
      else
        case get_item articles j of
          Inl e \<Rightarrow> Inl e
        | Inr other \<Rightarrow>
           (case jaccard (st_words_i st) (title_words (title other)) of
              Inl e \<Rightarrow> Inl e
            | Inr similarity \<Rightarrow>
                if similarity > 1 / 2 then
                  let used' = insert j (st_used st);
                      other_source = source other;
                      arb1 = (if other_source \<noteq> [] \<and> other_source \<noteq> source (st_article st)
                              then st_also_reported_by st @ [other_source]
                              else st_also_reported_by st);
                      current_score = rep_score (st_article st);
                      other_score = rep_score other
                  in if other_score > current_score then
                       (case get_item articles i of
                          Inl e \<Rightarrow> Inl e
                        | Inr first \<Rightarrow>
                            let article' = other\<lparr>also_reported_by := []\<rparr>;
                                arb2 = (if source article' \<noteq> source first
                                        then arb1 @ [source first]
                                        else arb1)
                            in Inr \<lparr>st_article = article',
                                    st_words_i = title_words (title article'),
                                    st_also_reported_by = arb2, st_used = used'\<rparr>)
                     else Inr (st\<lparr>st_also_reported_by := arb1, st_used := used'\<rparr>)
                else Inr st))"

text \<open>The inner loop \<^verbatim>\<open>for j in range(i + 1, len(articles))\<close>, over the list of
  indices still to visit. An exception ends it.\<close>

fun scan :: "article list \<Rightarrow> nat \<Rightarrow> nat list \<Rightarrow> scan_state \<Rightarrow> py_error + scan_state" where
  "scan articles i [] st = Inr st"
| "scan articles i (j # js) st =
     (case merge_step articles i j st of
        Inl e \<Rightarrow> Inl e
      | Inr st' \<Rightarrow> scan articles i js st')"

text \<open>One pass of the outer loop body, for the pair \<open>(i, article)\<close> that
  \<^verbatim>\<open>enumerate\<close> gives: the state is \<^verbatim>\<open>used\<close> and \<^verbatim>\<open>deduplicated\<close>.\<close>

definition cluster_step ::
  "article list \<Rightarrow> nat set \<times> article list \<Rightarrow> nat \<Rightarrow> article \<Rightarrow> py_error + (nat set \<times> article list)" where
  "cluster_step articles s i article =
     (case s of (used, deduplicated) \<Rightarrow>
        if i \<in> used then Inr (used, deduplicated)
        else
          case scan articles i [i + 1 ..< length articles]
                 \<lparr>st_article = article, st_words_i = title_words (title article),
                  st_also_reported_by = also_reported_by article, st_used = used\<rparr> of
            Inl e \<Rightarrow> Inl e
          | Inr st \<Rightarrow>
              Inr (st_used st,
                   deduplicated @ [(st_article st)\<lparr>also_reported_by := st_also_reported_by st\<rparr>]))"

fun clusters ::
  "article list \<Rightarrow> (nat \<times> article) list \<Rightarrow> nat set \<times> article list \<Rightarrow> py_error + (nat set \<times> article list)" where
  "clusters articles [] s = Inr s"
| "clusters articles ((i, article) # rest) s =
     (case cluster_step articles s i article of
        Inl e \<Rightarrow> Inl e
      | Inr s' \<Rightarrow> clusters articles rest s')"

definition dedup_by_title :: "article list \<Rightarrow> py_error + article list" where
  "dedup_by_title articles =
     (case clusters articles (enumerate 0 articles) ({}, []) of
        Inl e \<Rightarrow> Inl e
      | Inr (used, deduplicated) \<Rightarrow> Inr deduplicated)"

text \<open>
  The representative as the specification selects it, for comparison with the loop:
  starting from the current one, each later article of the cluster takes its place when
  its score pair is strictly greater; a tie keeps the current one.
\<close>

fun spec_best_representative :: "article \<Rightarrow> article list \<Rightarrow> article" where
  "spec_best_representative current [] = current"
| "spec_best_representative current (b # bs) =
     spec_best_representative (if rep_score current < rep_score b then b else current) bs"

subsection \<open>Reranking\<close>

text \<open>The sort key \<^verbatim>\<open>_score\<close>: a pair of an integer and a string, ordered as Python
  orders tuples and strings (lexicographically, by code point).\<close>

definition score :: "article \<Rightarrow> nat \<times> string" where
  "score a = (length (also_reported_by a), published_at a)"

text \<open>
  \<^verbatim>\<open>sorted(articles, key=_score, reverse=True)\<close>. Python's sort is stable, and with
  \<^verbatim>\<open>reverse=True\<close> it reverses the list, sorts it stably in ascending order and
  reverses the result, so elements with equal keys keep their input order.
\<close>

definition rerank :: "article list \<Rightarrow> article list" where
  "rerank articles = rev (sort_key score (rev articles))"

subsection \<open>The handler\<close>

text \<open>
  \<^verbatim>\<open>execute\<close> reads \<^verbatim>\<open>query\<close> and \<^verbatim>\<open>limit\<close> from \<^verbatim>\<open>params\<close>; an absent
  key is \<open>None\<close>. What \<^verbatim>\<open>_fetch_with_retry\<close> and the clock give is an input of the
  model: the fetched articles, the retry flag, the error if any, and the latency.
  The region and language, which only go to the fetch and to \<^verbatim>\<open>_meta\<close>, and the
  two rounded ratios of \<^verbatim>\<open>_meta\<close> are left out. An exception of a stage leaves
  \<^verbatim>\<open>execute\<close> uncaught.
\<close>

record params =
  p_query :: "string option"
  p_limit :: "int option"

record fetch_outcome =
  raw_articles :: "article list"
  retry_used :: bool
  fetch_error :: "string option"
  fetch_latency_ms :: int

record meta =
  m_fetch_latency_ms :: int
  m_article_count_raw :: nat
  m_article_count_deduped :: nat
  m_dedup_removed :: int
  m_image_count :: nat
  m_retry_used :: bool
  m_source_diversity :: nat

record response =
  r_results :: "article list"
  r_count :: nat
  r_query :: string
  r_error :: "string option"
  r_meta :: "meta option"

definition strip :: "string \<Rightarrow> string" where
  "strip s = rev (dropWhile is_space (rev (dropWhile is_space s)))"

text \<open>\<^verbatim>\<open>max(1, min(8, int(params.get("limit") or 5)))\<close>: an absent limit and the
  limit \<open>0\<close> are both falsy and give \<open>5\<close>.\<close>

definition effective_limit :: "params \<Rightarrow> int" where
  "effective_limit p =
     max 1 (min 8 (case p_limit p of None \<Rightarrow> 5 | Some l \<Rightarrow> if l = 0 then 5 else l))"

definition execute :: "params \<Rightarrow> fetch_outcome \<Rightarrow> py_error + response" where
  "execute p f =
     (let query = strip (case p_query p of None \<Rightarrow> [] | Some q \<Rightarrow> q) in
      if query = [] then
        Inr \<lparr>r_results = [], r_count = 0, r_query = [], r_error = None, r_meta = None\<rparr>
      else
        let limit = effective_limit p in
        if fetch_error f \<noteq> None \<and> raw_articles f = [] then
          Inr \<lparr>r_results = [], r_count = 0, r_query = query,
               r_error = map_option (take 200) (fetch_error f), r_meta = None\<rparr>
        else
          let article_count_raw = length (raw_articles f);
              url_deduped = dedup_by_url (raw_articles f)
          in case dedup_by_title url_deduped of
               Inl e \<Rightarrow> Inl e
             | Inr title_deduped \<Rightarrow>
                 let article_count_deduped = length title_deduped;
                     dedup_removed = int article_count_raw - int article_count_deduped;
                     ranked = rerank title_deduped;
                     results = take (nat limit) ranked;
                     image_count = length (filter (\<lambda>r. image_url r \<noteq> []) results);
                     source_diversity = card (set (filter (\<lambda>s. s \<noteq> []) (map source results)))
                 in Inr \<lparr>r_results = results, r_count = length results, r_query = query,
                         r_error = None,
                         r_meta = Some \<lparr>m_fetch_latency_ms = fetch_latency_ms f,
                                        m_article_count_raw = article_count_raw,
                                        m_article_count_deduped = article_count_deduped,
                                        m_dedup_removed = dedup_removed,
                                        m_image_count = image_count,
                                        m_retry_used = retry_used f,
                                        m_source_diversity = source_diversity\<rparr>\<rparr>)"

subsection \<open>Example inputs\<close>

text \<open>An article as \<^verbatim>\<open>_normalize_article\<close> builds it, with no cross-references yet:
  title, source, timestamp, description, URL and image URL.\<close>

definition example_article :: "string \<Rightarrow> string \<Rightarrow> string \<Rightarrow> string \<Rightarrow> string \<Rightarrow> string \<Rightarrow> article" where
  "example_article t s p d u i =
     \<lparr>title = t, source = s, date = p, published_at = p, description = d,
      url = u, image_url = i, also_reported_by = []\<rparr>"

definition ex_no_url :: article where
  "ex_no_url = example_article ''Budget vote delayed'' ''Wire'' [] [] [] []"

definition ex_fed_utm :: article where
  "ex_fed_utm = example_article ''Fed raises interest rates'' ''Alpha'' [] []
                  ''https://example.com/fed?utm_source=x'' []"

definition ex_fed_frag :: article where
  "ex_fed_frag = example_article ''Fed decision explained'' ''Beta'' [] []
                   ''https://example.com/fed#top'' []"

definition ex_storm :: article where
  "ex_storm = example_article ''Storm closes northern ports'' ''Gamma'' [] []
                ''https://example.com/storm'' []"

text \<open>Three reports of one story, each with a longer description than the one before,
  and a fourth with an image.\<close>

definition ex_alpha :: article where
  "ex_alpha = example_article ''Fed raises interest rates'' ''Alpha'' ''2024-01-02T09:00:00'' []
                ''https://alpha.example/fed'' []"

definition ex_beta :: article where
  "ex_beta = example_article ''Fed raises rates'' ''Beta'' ''2024-01-02T10:00:00'' ''Short note''
               ''https://beta.example/fed'' []"

definition ex_gamma :: article where
  "ex_gamma = example_article ''Fed raises rates today'' ''Gamma'' ''2024-01-02T11:00:00''
                ''A longer description of the decision''
                ''https://gamma.example/fed'' []"

definition ex_pictured :: article where
  "ex_pictured = example_article ''Fed raises rates'' ''Beta'' ''2024-01-02T10:00:00'' []
                   ''https://beta.example/fed'' ''https://beta.example/fed.jpg''"

text \<open>The same story under a title with a stop word, capitals and punctuation.\<close>

definition ex_shout :: article where
  "ex_shout = example_article ''The FED raises rates, again!'' ''Delta'' ''2024-01-02T12:00:00'' []
                ''https://delta.example/fed'' []"

text \<open>The state in which the inner loop starts for a first article, nothing consumed
  yet.\<close>

definition scan_start :: "article \<Rightarrow> scan_state" where
  "scan_start a = \<lparr>st_article = a, st_words_i = title_words (title a),
      st_also_reported_by = also_reported_by a, st_used = {}\<rparr>"

definition ex_params :: params where
  "ex_params = \<lparr>p_query = Some '' fed rates '', p_limit = Some 2\<rparr>"

definition ex_fetch :: fetch_outcome where
  "ex_fetch = \<lparr>raw_articles = [ex_storm, ex_alpha, ex_fed_frag, ex_beta],
               retry_used = False, fetch_error = None, fetch_latency_ms = 120\<rparr>"

abbreviation url_key :: "article \<Rightarrow> string" where
  "url_key a \<equiv> normalize_url (url a)"

section \<open>Properties\<close>

subsection \<open>URL deduplication\<close>

lemma url_step_keys:
  "\<forall>p \<in> set s. fst p = url_key (snd p) \<Longrightarrow> \<forall>p \<in> set (url_step s a). fst p = url_key (snd p)"
  by (simp add: url_step_def Let_def)

lemma seen_keys: "\<forall>p \<in> set (foldl url_step [] xs). fst p = url_key (snd p)"
proof (induction xs rule: rev_induct)
  case Nil
  show ?case by simp
next
  case (snoc x xs)
  then show ?case using url_step_keys by simp
qed

lemma dedup_by_url_Nil: "dedup_by_url [] = []"
  by (simp add: dedup_by_url_def)

text \<open>The loop, read from the output list: the next article is appended unless its key
  is empty or is the key of an article already kept.\<close>

lemma dedup_by_url_snoc:
  "dedup_by_url (xs @ [x]) =
     (if url_key x = [] \<or> url_key x \<in> url_key ` set (dedup_by_url xs)
      then dedup_by_url xs else dedup_by_url xs @ [x])"
proof -
  have "fst ` set (foldl url_step [] xs) = url_key ` snd ` set (foldl url_step [] xs)"
    using seen_keys [of xs] by (force simp: image_iff)
  then show ?thesis
    by (simp add: dedup_by_url_def url_step_def Let_def image_image)
qed

lemma dedup_by_url_keys_nonempty: "a \<in> set (dedup_by_url xs) \<Longrightarrow> url_key a \<noteq> []"
  by (induction xs rule: rev_induct) (auto simp: dedup_by_url_Nil dedup_by_url_snoc split: if_splits)

lemma dedup_by_url_subset: "set (dedup_by_url xs) \<subseteq> set xs"
  by (induction xs rule: rev_induct) (auto simp: dedup_by_url_Nil dedup_by_url_snoc split: if_splits)

lemma dedup_by_url_subseq: "subseq (dedup_by_url xs) xs"
proof (induction xs rule: rev_induct)
  case Nil
  show ?case by (simp add: dedup_by_url_Nil)
next
  case (snoc x xs)
  have "subseq (dedup_by_url xs) (xs @ [x])"
    using snoc.IH by (rule subseq_rev_drop_many)
  moreover have "subseq (dedup_by_url xs @ [x]) (xs @ [x])"
    using snoc.IH by simp
  ultimately show ?case by (simp add: dedup_by_url_snoc)
qed

lemma find_snoc:
  "find P (xs @ [x]) =
     (case find P xs of Some y \<Rightarrow> Some y | None \<Rightarrow> if P x then Some x else None)"
  by (induction xs) auto

lemma dedup_by_url_filter_key:
  assumes "k \<noteq> []"
  shows "filter (\<lambda>c. url_key c = k) (dedup_by_url xs) =
         (case find (\<lambda>c. url_key c = k) xs of None \<Rightarrow> [] | Some b \<Rightarrow> [b])"
proof (induction xs rule: rev_induct)
  case Nil
  show ?case by (simp add: dedup_by_url_Nil)
next
  case (snoc x xs)
  let ?P = "\<lambda>c. url_key c = k"
  show ?case
  proof (cases "find ?P xs")
    case (Some b)
    then have old: "filter ?P (dedup_by_url xs) = [b]" using snoc.IH by simp
    have "b \<in> set (filter ?P (dedup_by_url xs))" by (simp add: old)
    then have "b \<in> set (dedup_by_url xs)" "url_key b = k" by simp_all
    then have "k \<in> url_key ` set (dedup_by_url xs)" by (metis imageI)
    then show ?thesis using Some old by (auto simp: dedup_by_url_snoc find_snoc)
  next
    case None
    then have old: "filter ?P (dedup_by_url xs) = []" using snoc.IH by simp
    have "\<forall>c \<in> set xs. url_key c \<noteq> k" using None by (simp add: find_None_iff)
    then have "k \<notin> url_key ` set (dedup_by_url xs)" using dedup_by_url_subset [of xs] by auto
    then show ?thesis using None old assms by (auto simp: dedup_by_url_snoc find_snoc)
  qed
qed

lemma url_step_no_empty_key: "[] \<notin> fst ` set s \<Longrightarrow> [] \<notin> fst ` set (url_step s a)"
proof (cases "url_key a = []")
  case True
  then show "[] \<notin> fst ` set s \<Longrightarrow> ?thesis" by (simp add: url_step_def)
next
  case False
  then have "[] \<noteq> url_key a" by (rule not_sym)
  then show "[] \<notin> fst ` set s \<Longrightarrow> ?thesis" by (simp add: url_step_def Let_def)
qed

lemma seen_urls_no_empty_key: "[] \<notin> fst ` set (foldl url_step [] xs)"
proof (induction xs rule: rev_induct)
  case Nil
  show ?case by simp
next
  case (snoc x xs)
  then show ?case using url_step_no_empty_key by simp
qed

text \<open>
  C1, as the specification states it: an article whose normalized URL key is empty is
  never dropped. The loop does the opposite. A single article with an empty URL has the
  empty key and is missing from the output.
\<close>

theorem empty_key_dropped_counterexample:
  "url_key ex_no_url = [] \<and> ex_no_url \<notin> set (dedup_by_url [ex_no_url])"
  by code_simp

text \<open>
  C1, amended: for every input list, the URL deduplicator drops every article whose
  normalized URL key is empty. No such article appears in the output, and the empty key
  is never stored in \<^verbatim>\<open>seen_urls\<close>.
\<close>

theorem empty_key_always_dropped:
  "url_key a = [] \<Longrightarrow> a \<notin> set (dedup_by_url xs) \<and> [] \<notin> fst ` set (foldl url_step [] xs)"
  using dedup_by_url_keys_nonempty [of a xs] seen_urls_no_empty_key [of xs] by blast

theorem empty_key_always_dropped_witness:
  "url_key ex_no_url = [] \<and> ex_no_url \<notin> set (dedup_by_url [ex_storm, ex_no_url, ex_fed_utm])
   \<and> dedup_by_url [ex_storm, ex_no_url, ex_fed_utm] = [ex_storm, ex_fed_utm]"
proof -
  have h: "url_key ex_no_url = []" by code_simp
  have "dedup_by_url [ex_storm, ex_no_url, ex_fed_utm] = [ex_storm, ex_fed_utm]" by code_simp
  then show ?thesis
    using h empty_key_always_dropped [OF h, of "[ex_storm, ex_no_url, ex_fed_utm]"] by simp
qed

text \<open>
  C4: for every input list and every non-empty normalized key \<open>k\<close> that some article
  has, exactly one article with key \<open>k\<close> survives URL deduplication, it is the first
  article of the input with that key, and the output is a subsequence of the input, so
  the survivors keep their relative input order.
\<close>

theorem dedup_by_url_first_seen:
  assumes "k \<noteq> []" and "find (\<lambda>c. url_key c = k) xs = Some b"
  shows "filter (\<lambda>c. url_key c = k) (dedup_by_url xs) = [b] \<and> subseq (dedup_by_url xs) xs"
  using dedup_by_url_filter_key [OF assms(1), of xs] assms(2) dedup_by_url_subseq [of xs]
  by simp

theorem dedup_by_url_first_seen_witness:
  "''https://example.com/fed'' \<noteq> [] \<and>
   find (\<lambda>c. url_key c = ''https://example.com/fed'') [ex_storm, ex_fed_utm, ex_fed_frag] = Some ex_fed_utm \<and>
   filter (\<lambda>c. url_key c = ''https://example.com/fed'') (dedup_by_url [ex_storm, ex_fed_utm, ex_fed_frag])
     = [ex_fed_utm] \<and>
   subseq (dedup_by_url [ex_storm, ex_fed_utm, ex_fed_frag]) [ex_storm, ex_fed_utm, ex_fed_frag]"
proof -
  have h1: "''https://example.com/fed'' \<noteq> []" by simp
  have h2: "find (\<lambda>c. url_key c = ''https://example.com/fed'') [ex_storm, ex_fed_utm, ex_fed_frag]
              = Some ex_fed_utm"
    by code_simp
  show ?thesis using h1 h2 dedup_by_url_first_seen [OF h1 h2] by simp
qed

subsection \<open>Title deduplication\<close>

text \<open>
  The stage never raises: the division of \<^verbatim>\<open>_jaccard\<close> is reached with two
  non-empty sets only, and every index the loops read is below the length of the list.
\<close>

lemma jaccard_Inr:
  "jaccard a b = Inr (if a = {||} \<or> b = {||} then 0
                      else of_nat (fcard (a |\<inter>| b)) / of_nat (fcard (a |\<union>| b)))"
  by (simp add: jaccard_def Let_def)

lemma merge_step_Inr:
  assumes "i < length articles" and "j < length articles"
  shows "\<exists>st'. merge_step articles i j st = Inr st'"
  using assms by (simp add: merge_step_def get_item_def jaccard_Inr Let_def)

lemma scan_Inr:
  assumes "i < length articles" and "\<forall>j \<in> set js. j < length articles"
  shows "\<exists>st'. scan articles i js st = Inr st'"
  using assms(2)
proof (induction js arbitrary: st)
  case Nil
  show ?case by simp
next
  case (Cons j js)
  then have "j < length articles" by simp
  then obtain st1 where "merge_step articles i j st = Inr st1"
    using merge_step_Inr [OF assms(1)] by blast
  moreover have "\<exists>st2. scan articles i js st1 = Inr st2"
    using Cons.IH [of st1] Cons.prems by simp
  then obtain st2 where "scan articles i js st1 = Inr st2" ..
  ultimately show ?case by simp
qed

lemma cluster_step_Inr:
  assumes "i < length articles"
  shows "\<exists>s'. cluster_step articles s i a = Inr s'"
proof (cases s)
  case (Pair used deduplicated)
  obtain st where "scan articles i [i + 1 ..< length articles]
      \<lparr>st_article = a, st_words_i = title_words (title a),
       st_also_reported_by = also_reported_by a, st_used = used\<rparr> = Inr st"
    using scan_Inr [OF assms, of "[i + 1 ..< length articles]"] by auto
  then show ?thesis using Pair by (simp add: cluster_step_def)
qed

lemma clusters_Inr:
  assumes "\<forall>p \<in> set rest. fst p < length articles"
  shows "\<exists>s'. clusters articles rest s = Inr s'"
  using assms
proof (induction rest arbitrary: s)
  case Nil
  show ?case by simp
next
  case (Cons p rest)
  obtain i a where p: "p = (i, a)" by (cases p)
  then have "i < length articles" using Cons.prems by simp
  then obtain s1 where "cluster_step articles s i a = Inr s1"
    using cluster_step_Inr by blast
  moreover have "\<exists>s2. clusters articles rest s1 = Inr s2"
    using Cons.IH [of s1] Cons.prems by simp
  then obtain s2 where "clusters articles rest s1 = Inr s2" ..
  ultimately show ?case using p by simp
qed

lemma dedup_by_title_Inr: "\<exists>ys. dedup_by_title xs = Inr ys"
proof -
  have "\<forall>p \<in> set (enumerate 0 xs). fst p < length xs"
    by (simp add: in_set_enumerate_eq)
  then obtain s where "clusters xs (enumerate 0 xs) ({}, []) = Inr s"
    using clusters_Inr by blast
  then show ?thesis by (cases s) (simp add: dedup_by_title_def)
qed

lemma dedup_by_title_Nil: "dedup_by_title [] = Inr []"
  by (simp add: dedup_by_title_def)

lemma merge_step_eq:
  assumes "i < length articles" and "j < length articles" and "j \<notin> st_used st"
    and "jaccard (st_words_i st) (title_words (title (articles ! j))) = Inr q"
  shows "merge_step articles i j st =
     Inr (if 1 / 2 < q then
            (let other = articles ! j;
                 arb1 = (if source other \<noteq> [] \<and> source other \<noteq> source (st_article st)
                         then st_also_reported_by st @ [source other]
                         else st_also_reported_by st)
             in if rep_score (st_article st) < rep_score other
                then \<lparr>st_article = other\<lparr>also_reported_by := []\<rparr>,
                      st_words_i = title_words (title other),
                      st_also_reported_by =
                        (if source other \<noteq> source (articles ! i)
                         then arb1 @ [source (articles ! i)] else arb1),
                      st_used = insert j (st_used st)\<rparr>
                else st\<lparr>st_also_reported_by := arb1, st_used := insert j (st_used st)\<rparr>)
          else st)"
  using assms by (simp add: merge_step_def get_item_def Let_def)

lemma merge_step_words:
  assumes "merge_step articles i j st = Inr st'"
    and "st_words_i st = title_words (title (st_article st))"
  shows "st_words_i st' = title_words (title (st_article st'))"
  using assms
  by (auto simp: merge_step_def Let_def split: if_splits sum.splits)

text \<open>
  A list of two articles, read off the loops: one story when the similarity of the two
  titles exceeds one half, the two articles unchanged otherwise.
\<close>

lemma dedup_by_title_pair:
  assumes "jaccard (title_words (title a)) (title_words (title b)) = Inr q"
  shows "dedup_by_title [a, b] =
     Inr (if 1 / 2 < q then
            (let arb1 = (if source b \<noteq> [] \<and> source b \<noteq> source a
                         then also_reported_by a @ [source b] else also_reported_by a)
             in if rep_score a < rep_score b
                then [b\<lparr>also_reported_by :=
                          (if source b \<noteq> source a then arb1 @ [source a] else arb1)\<rparr>]
                else [a\<lparr>also_reported_by := arb1\<rparr>])
          else [a, b])"
proof -
  have up: "[Suc 0 ..< 2] = [Suc 0]" "[2 ..< 2] = ([] :: nat list)"
    by (simp_all add: upt_rec)
  show ?thesis
    using assms
    by (simp add: dedup_by_title_def cluster_step_def merge_step_def get_item_def Let_def up)
qed

text \<open>
  A list in which no later title is similar to an earlier one comes back unchanged.
\<close>

lemma merge_step_skip:
  assumes "j < length xs"
    and "j \<in> st_used st \<or> (\<exists>q. jaccard (st_words_i st) (words_of (xs ! j)) = Inr q \<and> q \<le> 1 / 2)"
  shows "merge_step xs i j st = Inr st"
  using assms by (auto simp: merge_step_def get_item_def)

lemma scan_no_merge:
  assumes "\<forall>j \<in> set js. j < length xs \<and>
             (j \<in> st_used st \<or> (\<exists>q. jaccard (st_words_i st) (words_of (xs ! j)) = Inr q \<and> q \<le> 1 / 2))"
  shows "scan xs i js st = Inr st"
  using assms
proof (induction js)
  case Nil
  show ?case by simp
next
  case (Cons j js)
  then have "merge_step xs i j st = Inr st" using merge_step_skip [of j xs st i] by simp
  then show ?case using Cons by simp
qed

lemma clusters_no_merge:
  assumes "\<forall>i j. i < j \<and> j < length xs \<longrightarrow>
             (\<exists>q. jaccard (words_of (xs ! i)) (words_of (xs ! j)) = Inr q \<and> q \<le> 1 / 2)"
  shows "k \<le> length xs \<Longrightarrow>
         clusters xs (enumerate k (drop k xs)) ({}, out) = Inr ({}, out @ drop k xs)"
proof (induction "length xs - k" arbitrary: k out)
  case 0
  then show ?case by simp
next
  case (Suc n)
  then have k: "k < length xs" by simp
  then have d: "drop k xs = xs ! k # drop (Suc k) xs" by (simp add: Cons_nth_drop_Suc)
  have "scan xs k [k + 1 ..< length xs]
          \<lparr>st_article = xs ! k, st_words_i = words_of (xs ! k),
           st_also_reported_by = also_reported_by (xs ! k), st_used = {}\<rparr>
        = Inr \<lparr>st_article = xs ! k, st_words_i = words_of (xs ! k),
           st_also_reported_by = also_reported_by (xs ! k), st_used = {}\<rparr>"
    by (rule scan_no_merge) (use assms k in simp)
  then have c: "cluster_step xs ({}, out) k (xs ! k) = Inr ({}, out @ [xs ! k])"
    by (simp add: cluster_step_def)
  have "clusters xs (enumerate (Suc k) (drop (Suc k) xs)) ({}, out @ [xs ! k])
          = Inr ({}, (out @ [xs ! k]) @ drop (Suc k) xs)"
    using Suc.hyps(1) [of "Suc k" "out @ [xs ! k]"] Suc.hyps(2) k by simp
  then show ?case using c d by simp
qed

lemma dedup_by_title_no_merge:
  assumes "\<forall>i j. i < j \<and> j < length xs \<longrightarrow>
             (\<exists>q. jaccard (words_of (xs ! i)) (words_of (xs ! j)) = Inr q \<and> q \<le> 1 / 2)"
  shows "dedup_by_title xs = Inr xs"
  using clusters_no_merge [OF assms, of 0 "[]"] by (simp add: dedup_by_title_def)

lemma clusters_all_used:
  assumes "\<forall>p \<in> set rest. fst p \<in> used"
  shows "clusters xs rest (used, out) = Inr (used, out)"
  using assms by (induction rest) (auto simp: cluster_step_def)

text \<open>
  A list in which all titles are similar to each other is one cluster; its
  representative is the one the specification selects.
\<close>

lemma rep_score_less:
  "rep_score a < rep_score b \<longleftrightarrow>
     (image_url a = [] \<and> image_url b \<noteq> []) \<or>
     ((image_url a = [] \<longleftrightarrow> image_url b = []) \<and> length (description a) < length (description b))"
  by (auto simp: rep_score_def)

lemma spec_best_reset:
  "a\<lparr>also_reported_by := []\<rparr> = a'\<lparr>also_reported_by := []\<rparr> \<Longrightarrow>
   (spec_best_representative a bs)\<lparr>also_reported_by := []\<rparr>
     = (spec_best_representative a' bs)\<lparr>also_reported_by := []\<rparr>"
proof (induction bs arbitrary: a a')
  case Nil
  then show ?case by simp
next
  case (Cons b bs)
  from Cons.prems have "image_url a = image_url a'" "description a = description a'"
    by (metis article.select_convs(7) article.surjective article.update_convs(8),
        metis article.select_convs(5) article.surjective article.update_convs(8))
  then have "rep_score a = rep_score a'" by (simp add: rep_score_def)
  then show ?case using Cons.IH [of a a'] Cons.IH [of b b] Cons.prems by simp
qed

lemma merge_step_merge:
  assumes "i < length xs" and "j < length xs" and "j \<notin> st_used st"
    and "jaccard (st_words_i st) (words_of (xs ! j)) = Inr q" and "1 / 2 < q"
  shows "\<exists>st'. merge_step xs i j st = Inr st' \<and>
           st_used st' = insert j (st_used st) \<and>
           st_article st' = (if rep_score (st_article st) < rep_score (xs ! j)
                             then (xs ! j)\<lparr>also_reported_by := []\<rparr> else st_article st) \<and>
           (st_words_i st' = st_words_i st \<or> st_words_i st' = words_of (xs ! j))"
  using merge_step_eq [OF assms(1-4)] assms(5) by (simp add: Let_def)

lemma scan_all_merge:
  assumes sim: "\<forall>k j. k < length xs \<and> j < length xs \<longrightarrow>
                  (\<exists>q. jaccard (words_of (xs ! k)) (words_of (xs ! j)) = Inr q \<and> 1 / 2 < q)"
    and i: "i < length xs"
  shows "distinct js \<Longrightarrow> \<forall>j \<in> set js. j < length xs \<and> j \<notin> st_used st \<Longrightarrow>
         \<exists>k < length xs. st_words_i st = words_of (xs ! k) \<Longrightarrow>
         \<exists>st'. scan xs i js st = Inr st' \<and>
           st_used st' = st_used st \<union> set js \<and>
           (st_article st')\<lparr>also_reported_by := []\<rparr>
             = (spec_best_representative (st_article st) (map ((!) xs) js))\<lparr>also_reported_by := []\<rparr>"
proof (induction js arbitrary: st)
  case Nil
  then show ?case by simp
next
  case (Cons j js)
  from Cons.prems have j: "j < length xs" "j \<notin> st_used st" by simp_all
  from Cons.prems(3) obtain k where k: "k < length xs" "st_words_i st = words_of (xs ! k)" by blast
  from sim k(1) j(1) obtain q where
    q: "jaccard (words_of (xs ! k)) (words_of (xs ! j)) = Inr q" "1 / 2 < q" by blast
  from merge_step_merge [OF i j, of q] q k(2)
  obtain st1 where st1: "merge_step xs i j st = Inr st1"
    "st_used st1 = insert j (st_used st)"
    "st_article st1 = (if rep_score (st_article st) < rep_score (xs ! j)
                       then (xs ! j)\<lparr>also_reported_by := []\<rparr> else st_article st)"
    "st_words_i st1 = st_words_i st \<or> st_words_i st1 = words_of (xs ! j)"
    by auto
  have w: "\<exists>k < length xs. st_words_i st1 = words_of (xs ! k)"
    using st1(4) k j(1) by auto
  have u: "\<forall>j' \<in> set js. j' < length xs \<and> j' \<notin> st_used st1"
    using Cons.prems(1,2) st1(2) by auto
  have d: "distinct js" using Cons.prems(1) by simp
  from Cons.IH [OF d u w] obtain st' where st': "scan xs i js st1 = Inr st'"
    "st_used st' = st_used st1 \<union> set js"
    "(st_article st')\<lparr>also_reported_by := []\<rparr>
       = (spec_best_representative (st_article st1) (map ((!) xs) js))\<lparr>also_reported_by := []\<rparr>"
    by blast
  have "(st_article st1)\<lparr>also_reported_by := []\<rparr>
          = (if rep_score (st_article st) < rep_score (xs ! j) then xs ! j else st_article st)
              \<lparr>also_reported_by := []\<rparr>"
    using st1(3) by simp
  from spec_best_reset [OF this, of "map ((!) xs) js"] st'(3)
  have "(st_article st')\<lparr>also_reported_by := []\<rparr>
          = (spec_best_representative (st_article st) (map ((!) xs) (j # js)))\<lparr>also_reported_by := []\<rparr>"
    by simp
  then show ?case using st1(1,2) st'(1,2) by auto
qed

lemma dedup_by_title_one_cluster:
  assumes sim: "\<forall>k j. k < length xs \<and> j < length xs \<longrightarrow>
                  (\<exists>q. jaccard (words_of (xs ! k)) (words_of (xs ! j)) = Inr q \<and> 1 / 2 < q)"
    and ne: "xs \<noteq> []"
  shows "\<exists>y. dedup_by_title xs = Inr [y] \<and>
           y\<lparr>also_reported_by := []\<rparr>
             = (spec_best_representative (hd xs) (tl xs))\<lparr>also_reported_by := []\<rparr>"
proof -
  obtain a rest where xs: "xs = a # rest" using ne by (cases xs) auto
  let ?st = "\<lparr>st_article = a, st_words_i = words_of a,
              st_also_reported_by = also_reported_by a, st_used = {}\<rparr>"
  have i: "0 < length xs" using xs by simp
  have w: "\<exists>k < length xs. st_words_i ?st = words_of (xs ! k)"
    using xs by (intro exI [of _ 0]) simp
  have u: "\<forall>j \<in> set [0 + 1 ..< length xs]. j < length xs \<and> j \<notin> st_used ?st" by simp
  from scan_all_merge [OF sim i _ u w]
  obtain st' where st': "scan xs 0 [0 + 1 ..< length xs] ?st = Inr st'"
    "st_used st' = st_used ?st \<union> set [0 + 1 ..< length xs]"
    "(st_article st')\<lparr>also_reported_by := []\<rparr>
       = (spec_best_representative (st_article ?st) (map ((!) xs) [0 + 1 ..< length xs]))
           \<lparr>also_reported_by := []\<rparr>"
    by auto
  have "[0 + 1 ..< length xs] = map Suc [0 ..< length rest]"
    using xs by (simp add: map_Suc_upt del: upt_Suc)
  then have "map ((!) xs) [0 + 1 ..< length xs] = map ((!) rest) [0 ..< length rest]"
    using xs by (simp add: o_def del: upt_Suc)
  then have t: "map ((!) xs) [0 + 1 ..< length xs] = rest"
    by (simp add: map_nth)
  let ?y = "(st_article st')\<lparr>also_reported_by := st_also_reported_by st'\<rparr>"
  have c: "cluster_step xs ({}, []) 0 a = Inr (st_used st', [?y])"
    using st'(1) by (simp add: cluster_step_def)
  have "\<forall>p \<in> set (enumerate (Suc 0) rest). fst p \<in> st_used st'"
    using st'(2) xs by (auto simp: in_set_enumerate_eq)
  then have "clusters xs (enumerate (Suc 0) rest) (st_used st', [?y]) = Inr (st_used st', [?y])"
    by (rule clusters_all_used)
  then have "dedup_by_title xs = Inr [?y]"
    using c xs by (simp add: dedup_by_title_def)
  moreover have "?y\<lparr>also_reported_by := []\<rparr>
      = (spec_best_representative (hd xs) (tl xs))\<lparr>also_reported_by := []\<rparr>"
    using st'(3) t xs by simp
  ultimately show ?thesis by blast
qed

text \<open>
  A significant word is longer than two characters, is no stop word, and has word
  characters only, none of them upper-case.
\<close>

lemma lower_char_not_upper: "\<not> is_upper (lower_char c)"
proof -
  have m: "(of_char (char_of (of_char c + (32::nat)) :: char) :: nat) = (of_char c + 32) mod 256"
    by simp
  show ?thesis
  proof (cases "is_upper c")
    case False
    then show ?thesis by (simp add: lower_char_def)
  next
    case True
    then have "(of_char c :: nat) \<le> 222"
      by (auto simp: is_upper_def is_ascii_upper_def less_eq_char_def)
    then have "(of_char (lower_char c) :: nat) = of_char c + 32"
      using True m by (simp add: lower_char_def)
    then show ?thesis using True
      by (auto simp: is_upper_def is_ascii_upper_def less_eq_char_def)
  qed
qed

lemma split_run_chars:
  "w \<in> set (split_run cur s) \<Longrightarrow> set w \<subseteq> set cur \<union> {c \<in> set s. \<not> is_space c}"
proof (induction s arbitrary: cur)
  case Nil
  then show ?case by (auto split: if_splits)
next
  case (Cons c cs)
  show ?case
  proof (cases "is_space c")
    case True
    then have "w = rev cur \<or> w \<in> set (split_run [] cs)"
      using Cons.prems by (auto split: if_splits)
    then show ?thesis using Cons.IH [of "[]"] by auto
  next
    case False
    then have "w \<in> set (split_run (c # cur) cs)" using Cons.prems by simp
    then show ?thesis using Cons.IH [of "c # cur"] False by auto
  qed
qed

lemma title_words_sound:
  assumes "w |\<in>| title_words t"
  shows "2 < length w \<and> w \<notin> set STOP_WORDS \<and>
         (\<forall>c \<in> set w. is_word_char c \<and> \<not> is_space c \<and> \<not> is_upper c)"
proof -
  from assms have w: "w \<in> set (split_ws (strip_punct (lower t)))"
    "w \<notin> set STOP_WORDS" "2 < length w"
    by (auto simp: title_words_def Let_def fset_of_list.rep_eq)
  have "set w \<subseteq> {c \<in> set (strip_punct (lower t)). \<not> is_space c}"
    using split_run_chars [of w "[]"] w(1) by (simp add: split_ws_def)
  moreover have "\<forall>c \<in> set (lower t). \<not> is_upper c"
    by (simp add: lower_def lower_char_not_upper)
  ultimately have "\<forall>c \<in> set w. is_word_char c \<and> \<not> is_space c \<and> \<not> is_upper c"
    by (auto simp: strip_punct_def)
  then show ?thesis using w by simp
qed

lemma above_half_iff: "above_half a b \<longleftrightarrow> (\<exists>q. jaccard a b = Inr q \<and> 1 / 2 < q)"
  by (simp add: above_half_def jaccard_Inr)

lemma not_above_half_iff: "\<not> above_half a b \<longleftrightarrow> (\<exists>q. jaccard a b = Inr q \<and> q \<le> 1 / 2)"
  by (simp add: above_half_def jaccard_Inr not_less)

lemma merge_step_threshold:
  assumes "i < length articles" and "j < length articles" and "j \<notin> st_used st"
  shows "\<exists>st'. merge_step articles i j st = Inr st' \<and>
           (j \<in> st_used st' \<longleftrightarrow> above_half (st_words_i st) (words_of (articles ! j))) \<and>
           (st' = st \<longleftrightarrow> \<not> above_half (st_words_i st) (words_of (articles ! j))) \<and>
           (st_words_i st = words_of (st_article st)
              \<longrightarrow> st_words_i st' = words_of (st_article st'))"
proof -
  obtain q where jq: "jaccard (st_words_i st) (words_of (articles ! j)) = Inr q"
    using jaccard_Inr by blast
  then have ah: "above_half (st_words_i st) (words_of (articles ! j)) \<longleftrightarrow> 1 / 2 < q"
    by (simp add: above_half_def)
  note eq = merge_step_eq [OF assms jq]
  show ?thesis
  proof (cases "1 / 2 < q")
    case True
    obtain st' where st': "merge_step articles i j st = Inr st'" "j \<in> st_used st'"
      using eq True by (simp add: Let_def split: if_splits)
    then have "st' \<noteq> st" using assms(3) by auto
    then show ?thesis
      using st' True ah merge_step_words [OF st'(1)] by (intro exI [of _ st']) simp
  next
    case False
    then have "merge_step articles i j st = Inr st" using eq by simp
    then show ?thesis using False ah assms(3) by (intro exI [of _ st]) simp
  qed
qed

lemma dedup_by_title_pair_count:
  "\<exists>ys. dedup_by_title [a, b] = Inr ys \<and>
        (length ys = 1 \<longleftrightarrow> above_half (words_of a) (words_of b)) \<and>
        (ys = [a, b] \<longleftrightarrow> \<not> above_half (words_of a) (words_of b))"
proof -
  obtain q where jq: "jaccard (words_of a) (words_of b) = Inr q"
    using jaccard_Inr by blast
  then have ah: "above_half (words_of a) (words_of b) \<longleftrightarrow> 1 / 2 < q"
    by (simp add: above_half_def)
  show ?thesis
    using dedup_by_title_pair [OF jq] ah by (auto simp: Let_def)
qed

lemma dedup_by_title_none_similar:
  assumes "\<forall>j < length xs. \<forall>i < j. \<not> above_half (words_of (xs ! i)) (words_of (xs ! j))"
  shows "dedup_by_title xs = Inr xs"
proof (rule dedup_by_title_no_merge)
  show "\<forall>i j. i < j \<and> j < length xs \<longrightarrow>
          (\<exists>q. jaccard (words_of (xs ! i)) (words_of (xs ! j)) = Inr q \<and> q \<le> 1 / 2)"
    using assms by (simp add: not_above_half_iff)
qed

lemma dedup_by_title_all_similar:
  assumes "xs \<noteq> []"
    and "\<forall>a \<in> set xs. \<forall>b \<in> set xs. above_half (words_of a) (words_of b)"
  shows "\<exists>y. dedup_by_title xs = Inr [y] \<and>
           y\<lparr>also_reported_by := []\<rparr>
             = (spec_best_representative (hd xs) (tl xs))\<lparr>also_reported_by := []\<rparr>"
proof (rule dedup_by_title_one_cluster [OF _ assms(1)])
  show "\<forall>k j. k < length xs \<and> j < length xs \<longrightarrow>
          (\<exists>q. jaccard (words_of (xs ! k)) (words_of (xs ! j)) = Inr q \<and> 1 / 2 < q)"
  proof (intro allI impI)
    fix k j
    assume "k < length xs \<and> j < length xs"
    then have "xs ! k \<in> set xs" "xs ! j \<in> set xs" by simp_all
    then have "above_half (words_of (xs ! k)) (words_of (xs ! j))" using assms(2) by blast
    then show "\<exists>q. jaccard (words_of (xs ! k)) (words_of (xs ! j)) = Inr q \<and> 1 / 2 < q"
      by (simp only: above_half_iff)
  qed
qed

lemma merge_step_selection:
  assumes "i < length articles" and "j < length articles" and "j \<notin> st_used st"
    and "above_half (st_words_i st) (words_of (articles ! j))"
  shows "\<exists>st'. merge_step articles i j st = Inr st' \<and>
           (image_url (articles ! j) \<noteq> [] \<and> image_url (st_article st) = []
              \<longrightarrow> st_article st' = (articles ! j)\<lparr>also_reported_by := []\<rparr>) \<and>
           (image_url (articles ! j) = [] \<and> image_url (st_article st) \<noteq> []
              \<longrightarrow> st_article st' = st_article st) \<and>
           (rep_score (articles ! j) = rep_score (st_article st)
              \<longrightarrow> st_article st' = st_article st)"
proof -
  obtain q where q: "jaccard (st_words_i st) (words_of (articles ! j)) = Inr q" "1 / 2 < q"
    using assms(4) above_half_iff by blast
  show ?thesis
    using merge_step_eq [OF assms(1-3) q(1)] q(2) by (simp add: Let_def rep_score_def)
qed

lemma dedup_by_title_pair_selection:
  assumes "above_half (words_of a) (words_of b)"
  shows "\<exists>y. dedup_by_title [a, b] = Inr [y] \<and>
           (image_url b \<noteq> [] \<and> image_url a = [] \<longrightarrow> y = b\<lparr>also_reported_by := also_reported_by y\<rparr>) \<and>
           (image_url b = [] \<and> image_url a \<noteq> [] \<longrightarrow> y = a\<lparr>also_reported_by := also_reported_by y\<rparr>) \<and>
           (rep_score b = rep_score a \<longrightarrow> y = a\<lparr>also_reported_by := also_reported_by y\<rparr>)"
proof -
  obtain q where q: "jaccard (words_of a) (words_of b) = Inr q" "1 / 2 < q"
    using assms above_half_iff by blast
  let ?arb1 = "if source b \<noteq> [] \<and> source b \<noteq> source a
               then also_reported_by a @ [source b] else also_reported_by a"
  show ?thesis
  proof (cases "rep_score a < rep_score b")
    case True
    let ?y = "b\<lparr>also_reported_by := (if source b \<noteq> source a then ?arb1 @ [source a] else ?arb1)\<rparr>"
    have "dedup_by_title [a, b] = Inr [?y]"
      using dedup_by_title_pair [OF q(1)] q(2) True by (simp add: Let_def)
    moreover have "?y = b\<lparr>also_reported_by := also_reported_by ?y\<rparr>" by simp
    moreover have "\<not> (image_url b = [] \<and> image_url a \<noteq> [])"
      using True by (auto simp: rep_score_less)
    moreover have "rep_score b \<noteq> rep_score a"
      using True by auto
    ultimately show ?thesis by blast
  next
    case False
    let ?y = "a\<lparr>also_reported_by := ?arb1\<rparr>"
    have "dedup_by_title [a, b] = Inr [?y]"
      using dedup_by_title_pair [OF q(1)] q(2) False by (simp add: Let_def)
    moreover have "?y = a\<lparr>also_reported_by := also_reported_by ?y\<rparr>" by simp
    moreover have "\<not> (image_url b \<noteq> [] \<and> image_url a = [])"
      using False by (auto simp: rep_score_less)
    ultimately show ?thesis by blast
  qed
qed

text \<open>
  C5: the similarity is the size of the intersection over the size of the union of
  the two word sets, \<open>0\<close> when either is empty. For every pair that the title
  deduplicator considers, the current representative with word set \<^verbatim>\<open>words_i\<close>
  and a later article \<open>j\<close> not yet consumed, \<open>j\<close> is merged exactly when the
  similarity exceeds one half, and the state is unchanged otherwise; the word set stays
  that of the current representative's title. For the stage: a list of two articles
  gives one story exactly when the similarity of the two titles exceeds one half, and
  the two articles unchanged otherwise; a list in which no later title has similarity
  above one half with an earlier one is returned unchanged; a non-empty list in which
  every two titles have similarity above one half gives one story. The word sets
  compared hold the significant words only.
\<close>

theorem merge_iff_jaccard_above_half:
  "jaccard wa wb = Inr (if wa = {||} \<or> wb = {||} then 0
                        else of_nat (fcard (wa |\<inter>| wb)) / of_nat (fcard (wa |\<union>| wb))) \<and>
   (i < length articles \<and> j < length articles \<and> j \<notin> st_used st \<longrightarrow>
      (\<exists>st'. merge_step articles i j st = Inr st' \<and>
         (j \<in> st_used st' \<longleftrightarrow> above_half (st_words_i st) (words_of (articles ! j))) \<and>
         (st' = st \<longleftrightarrow> \<not> above_half (st_words_i st) (words_of (articles ! j))) \<and>
         (st_words_i st = words_of (st_article st)
            \<longrightarrow> st_words_i st' = words_of (st_article st')))) \<and>
   (\<exists>ys. dedup_by_title [a, b] = Inr ys \<and>
      (length ys = 1 \<longleftrightarrow> above_half (words_of a) (words_of b)) \<and>
      (ys = [a, b] \<longleftrightarrow> \<not> above_half (words_of a) (words_of b))) \<and>
   ((\<forall>j < length xs. \<forall>i < j. \<not> above_half (words_of (xs ! i)) (words_of (xs ! j)))
      \<longrightarrow> dedup_by_title xs = Inr xs) \<and>
   (zs \<noteq> [] \<and> (\<forall>a \<in> set zs. \<forall>b \<in> set zs. above_half (words_of a) (words_of b))
      \<longrightarrow> (\<exists>y. dedup_by_title zs = Inr [y])) \<and>
   (w |\<in>| title_words t \<longrightarrow>
      2 < length w \<and> w \<notin> set STOP_WORDS \<and>
      (\<forall>c \<in> set w. is_word_char c \<and> \<not> is_space c \<and> \<not> is_upper c))"
proof -
  have "zs \<noteq> [] \<and> (\<forall>a \<in> set zs. \<forall>b \<in> set zs. above_half (words_of a) (words_of b))
      \<longrightarrow> (\<exists>y. dedup_by_title zs = Inr [y])"
    using dedup_by_title_all_similar [of zs] by blast
  then show ?thesis
    using jaccard_Inr [of wa wb] merge_step_threshold [of i articles j st]
      dedup_by_title_pair_count [of a b] dedup_by_title_none_similar [of xs]
      title_words_sound [of w t]
    by blast
qed

theorem merge_iff_jaccard_above_half_witness:
  "jaccard (words_of ex_alpha) (words_of ex_shout) = Inr (3 / 5) \<and>
   title_words (title ex_shout) = fset_of_list [''fed'', ''raises'', ''rates'', ''again''] \<and>
   2 < length ''rates'' \<and> ''rates'' \<notin> set STOP_WORDS \<and>
   (\<exists>st'. merge_step [ex_alpha, ex_shout, ex_storm] 0 1 (scan_start ex_alpha) = Inr st' \<and>
          1 \<in> st_used st' \<and> st_words_i st' = words_of (st_article st')) \<and>
   merge_step [ex_alpha, ex_shout, ex_storm] 0 2 (scan_start ex_alpha) = Inr (scan_start ex_alpha) \<and>
   (\<exists>y. dedup_by_title [ex_alpha, ex_shout] = Inr [y]) \<and>
   dedup_by_title [ex_alpha, ex_storm] = Inr [ex_alpha, ex_storm] \<and>
   dedup_by_title [ex_storm, ex_alpha, ex_fed_frag] = Inr [ex_storm, ex_alpha, ex_fed_frag] \<and>
   (\<exists>y. dedup_by_title [ex_beta, ex_shout, ex_pictured] = Inr [y])"
proof -
  let ?xs = "[ex_alpha, ex_shout, ex_storm]"
  let ?st = "scan_start ex_alpha"
  note step = merge_iff_jaccard_above_half [THEN conjunct2, THEN conjunct1, THEN mp]
  note pair = merge_iff_jaccard_above_half [THEN conjunct2, THEN conjunct2, THEN conjunct1]
  note none = merge_iff_jaccard_above_half
                [THEN conjunct2, THEN conjunct2, THEN conjunct2, THEN conjunct1, THEN mp]
  note all = merge_iff_jaccard_above_half
               [THEN conjunct2, THEN conjunct2, THEN conjunct2, THEN conjunct2, THEN conjunct1, THEN mp]
  note sound = merge_iff_jaccard_above_half
                 [THEN conjunct2, THEN conjunct2, THEN conjunct2, THEN conjunct2, THEN conjunct2, THEN mp]
  have q: "jaccard (words_of ex_alpha) (words_of ex_shout) = Inr (3 / 5)" by code_simp
  have tw: "title_words (title ex_shout) = fset_of_list [''fed'', ''raises'', ''rates'', ''again'']"
    by code_simp
  have "''rates'' |\<in>| title_words (title ex_shout)" by code_simp
  from sound [OF this] have so: "2 < length ''rates''" "''rates'' \<notin> set STOP_WORDS"
    by (rule conjunct1, elim conjE)
  have r1: "(0::nat) < length ?xs \<and> (1::nat) < length ?xs \<and> (1::nat) \<notin> st_used ?st"
    and r2: "(0::nat) < length ?xs \<and> (2::nat) < length ?xs \<and> (2::nat) \<notin> st_used ?st"
    by (simp_all add: scan_start_def)
  have inv: "st_words_i ?st = words_of (st_article ?st)" by (simp add: scan_start_def)
  have s1: "above_half (st_words_i ?st) (words_of (?xs ! 1))" by code_simp
  have s2: "\<not> above_half (st_words_i ?st) (words_of (?xs ! 2))" by code_simp
  from step [OF r1] obtain st' where st': "merge_step ?xs 0 1 ?st = Inr st'"
    "(1 \<in> st_used st') = above_half (st_words_i ?st) (words_of (?xs ! 1))"
    "st_words_i ?st = words_of (st_article ?st) \<longrightarrow> st_words_i st' = words_of (st_article st')"
    by (elim exE conjE)
  have m1: "\<exists>st'. merge_step ?xs 0 1 ?st = Inr st' \<and> 1 \<in> st_used st' \<and>
              st_words_i st' = words_of (st_article st')"
  proof (intro exI conjI)
    show "merge_step ?xs 0 1 ?st = Inr st'" by (rule st'(1))
    show "1 \<in> st_used st'" using st'(2) s1 by (rule iffD2)
    show "st_words_i st' = words_of (st_article st')" using st'(3) inv by (rule mp)
  qed
  from step [OF r2] obtain st'' where st'': "merge_step ?xs 0 2 ?st = Inr st''"
    "(st'' = ?st) = (\<not> above_half (st_words_i ?st) (words_of (?xs ! 2)))"
    by (elim exE conjE)
  from st''(2) s2 have "st'' = ?st" by (rule iffD2)
  then have m2: "merge_step ?xs 0 2 ?st = Inr ?st" using st''(1) by (simp only:)
  have p1: "above_half (words_of ex_alpha) (words_of ex_shout)" by code_simp
  from pair [of ex_alpha ex_shout] obtain ys where ys: "dedup_by_title [ex_alpha, ex_shout] = Inr ys"
    "(length ys = 1) = above_half (words_of ex_alpha) (words_of ex_shout)"
    by (elim exE conjE)
  from ys(2) p1 have "length ys = 1" by (rule iffD2)
  then obtain y where "ys = [y]" by (cases ys) auto
  then have b1: "\<exists>y. dedup_by_title [ex_alpha, ex_shout] = Inr [y]" using ys(1) by blast
  have p2: "\<not> above_half (words_of ex_alpha) (words_of ex_storm)" by code_simp
  from pair [of ex_alpha ex_storm] obtain zs where zs: "dedup_by_title [ex_alpha, ex_storm] = Inr zs"
    "(zs = [ex_alpha, ex_storm]) = (\<not> above_half (words_of ex_alpha) (words_of ex_storm))"
    by (elim exE conjE)
  from zs(2) p2 have "zs = [ex_alpha, ex_storm]" by (rule iffD2)
  then have b2: "dedup_by_title [ex_alpha, ex_storm] = Inr [ex_alpha, ex_storm]"
    using zs(1) by (simp only:)
  have n: "\<forall>j < length [ex_storm, ex_alpha, ex_fed_frag]. \<forall>i < j.
             \<not> above_half (words_of ([ex_storm, ex_alpha, ex_fed_frag] ! i))
                            (words_of ([ex_storm, ex_alpha, ex_fed_frag] ! j))"
    by code_simp
  have c: "dedup_by_title [ex_storm, ex_alpha, ex_fed_frag] = Inr [ex_storm, ex_alpha, ex_fed_frag]"
    by (rule none [OF n])
  have a: "[ex_beta, ex_shout, ex_pictured] \<noteq> [] \<and>
           (\<forall>a \<in> set [ex_beta, ex_shout, ex_pictured]. \<forall>b \<in> set [ex_beta, ex_shout, ex_pictured].
              above_half (words_of a) (words_of b))"
    by code_simp
  have d: "\<exists>y. dedup_by_title [ex_beta, ex_shout, ex_pictured] = Inr [y]"
    by (rule all [OF a])
  show ?thesis by (intro conjI) (fact q tw so m1 m2 b1 b2 c d)+
qed

text \<open>
  C6: when a pair is merged and exactly one of the two candidates has a non-empty
  \<^verbatim>\<open>image_url\<close>, the one with the image is the representative afterwards,
  whatever the description lengths; when the two score pairs are equal, the current
  representative stays. For the stage: a list of two articles with similar titles
  gives one story, which is the article with the image when exactly one has an image,
  and the first article when the score pairs are equal, each with the cross-references
  of the story; a non-empty list in which every two titles are similar gives the
  article that the specification's rule selects. An image outranks any description
  length in the order of the score pairs.
\<close>

theorem representative_selection:
  "(i < length articles \<and> j < length articles \<and> j \<notin> st_used st \<and>
    above_half (st_words_i st) (words_of (articles ! j)) \<longrightarrow>
      (\<exists>st'. merge_step articles i j st = Inr st' \<and>
         (image_url (articles ! j) \<noteq> [] \<and> image_url (st_article st) = []
            \<longrightarrow> st_article st' = (articles ! j)\<lparr>also_reported_by := []\<rparr>) \<and>
         (image_url (articles ! j) = [] \<and> image_url (st_article st) \<noteq> []
            \<longrightarrow> st_article st' = st_article st) \<and>
         (rep_score (articles ! j) = rep_score (st_article st)
            \<longrightarrow> st_article st' = st_article st))) \<and>
   (above_half (words_of a) (words_of b) \<longrightarrow>
      (\<exists>y. dedup_by_title [a, b] = Inr [y] \<and>
         (image_url b \<noteq> [] \<and> image_url a = []
            \<longrightarrow> y = b\<lparr>also_reported_by := also_reported_by y\<rparr>) \<and>
         (image_url b = [] \<and> image_url a \<noteq> []
            \<longrightarrow> y = a\<lparr>also_reported_by := also_reported_by y\<rparr>) \<and>
         (rep_score b = rep_score a
            \<longrightarrow> y = a\<lparr>also_reported_by := also_reported_by y\<rparr>))) \<and>
   (xs \<noteq> [] \<and> (\<forall>a \<in> set xs. \<forall>b \<in> set xs. above_half (words_of a) (words_of b)) \<longrightarrow>
      (\<exists>y. dedup_by_title xs = Inr [y] \<and>
         y\<lparr>also_reported_by := []\<rparr>
           = (spec_best_representative (hd xs) (tl xs))\<lparr>also_reported_by := []\<rparr>)) \<and>
   (rep_score c < rep_score d \<longleftrightarrow>
      (image_url c = [] \<and> image_url d \<noteq> []) \<or>
      ((image_url c = [] \<longleftrightarrow> image_url d = []) \<and> length (description c) < length (description d)))"
  using merge_step_selection [of i articles j st] dedup_by_title_pair_selection [of a b]
    dedup_by_title_all_similar [of xs] rep_score_less [of c d]
  by blast

theorem representative_selection_witness:
  "dedup_by_title [ex_alpha, ex_pictured]
     = Inr [ex_pictured\<lparr>also_reported_by := [''Beta'', ''Alpha'']\<rparr>] \<and>
   (\<exists>y. dedup_by_title [ex_alpha, ex_pictured] = Inr [y] \<and>
         y = ex_pictured\<lparr>also_reported_by := also_reported_by y\<rparr>) \<and>
   length (description ex_pictured) < length (description ex_gamma) \<and>
   (\<exists>y. dedup_by_title [ex_pictured, ex_gamma] = Inr [y] \<and>
         y = ex_pictured\<lparr>also_reported_by := also_reported_by y\<rparr>) \<and>
   (\<exists>y. dedup_by_title [ex_alpha, ex_fed_utm] = Inr [y] \<and>
         y = ex_alpha\<lparr>also_reported_by := also_reported_by y\<rparr>) \<and>
   (\<exists>y. dedup_by_title [ex_beta, ex_gamma, ex_pictured] = Inr [y] \<and>
         y\<lparr>also_reported_by := []\<rparr> = ex_pictured\<lparr>also_reported_by := []\<rparr>) \<and>
   (\<exists>st'. merge_step [ex_alpha, ex_pictured] 0 1 (scan_start ex_alpha) = Inr st' \<and>
          st_article st' = ex_pictured\<lparr>also_reported_by := []\<rparr>) \<and>
   rep_score ex_gamma < rep_score ex_pictured"
proof -
  note step = representative_selection [THEN conjunct1, THEN mp]
  note pair = representative_selection [THEN conjunct2, THEN conjunct1, THEN mp]
  note cluster = representative_selection [THEN conjunct2, THEN conjunct2, THEN conjunct1, THEN mp]
  note order = representative_selection [THEN conjunct2, THEN conjunct2, THEN conjunct2]
  have e: "dedup_by_title [ex_alpha, ex_pictured]
             = Inr [ex_pictured\<lparr>also_reported_by := [''Beta'', ''Alpha'']\<rparr>]"
    by code_simp
  have h1: "above_half (words_of ex_alpha) (words_of ex_pictured)" by code_simp
  have i1: "image_url ex_pictured \<noteq> [] \<and> image_url ex_alpha = []" by code_simp
  from pair [OF h1] obtain y1 where y1: "dedup_by_title [ex_alpha, ex_pictured] = Inr [y1]"
    "image_url ex_pictured \<noteq> [] \<and> image_url ex_alpha = []
       \<longrightarrow> y1 = ex_pictured\<lparr>also_reported_by := also_reported_by y1\<rparr>"
    by (elim exE conjE)
  from y1(2) i1 have "y1 = ex_pictured\<lparr>also_reported_by := also_reported_by y1\<rparr>" by (rule mp)
  with y1(1) have w1: "\<exists>y. dedup_by_title [ex_alpha, ex_pictured] = Inr [y] \<and>
              y = ex_pictured\<lparr>also_reported_by := also_reported_by y\<rparr>"
    by (intro exI conjI)
  have h2: "above_half (words_of ex_pictured) (words_of ex_gamma)" by code_simp
  have i2: "image_url ex_gamma = [] \<and> image_url ex_pictured \<noteq> []" by code_simp
  have d: "length (description ex_pictured) < length (description ex_gamma)" by code_simp
  from pair [OF h2] obtain y2 where y2: "dedup_by_title [ex_pictured, ex_gamma] = Inr [y2]"
    "image_url ex_gamma = [] \<and> image_url ex_pictured \<noteq> []
       \<longrightarrow> y2 = ex_pictured\<lparr>also_reported_by := also_reported_by y2\<rparr>"
    by (elim exE conjE)
  from y2(2) i2 have "y2 = ex_pictured\<lparr>also_reported_by := also_reported_by y2\<rparr>" by (rule mp)
  with y2(1) have w2: "\<exists>y. dedup_by_title [ex_pictured, ex_gamma] = Inr [y] \<and>
              y = ex_pictured\<lparr>also_reported_by := also_reported_by y\<rparr>"
    by (intro exI conjI)
  have h3: "above_half (words_of ex_alpha) (words_of ex_fed_utm)" by code_simp
  have i3: "rep_score ex_fed_utm = rep_score ex_alpha" by code_simp
  from pair [OF h3] obtain y3 where y3: "dedup_by_title [ex_alpha, ex_fed_utm] = Inr [y3]"
    "rep_score ex_fed_utm = rep_score ex_alpha
       \<longrightarrow> y3 = ex_alpha\<lparr>also_reported_by := also_reported_by y3\<rparr>"
    by (elim exE conjE)
  from y3(2) i3 have "y3 = ex_alpha\<lparr>also_reported_by := also_reported_by y3\<rparr>" by (rule mp)
  with y3(1) have w3: "\<exists>y. dedup_by_title [ex_alpha, ex_fed_utm] = Inr [y] \<and>
              y = ex_alpha\<lparr>also_reported_by := also_reported_by y\<rparr>"
    by (intro exI conjI)
  let ?xs = "[ex_beta, ex_gamma, ex_pictured]"
  have h4: "?xs \<noteq> [] \<and> (\<forall>a \<in> set ?xs. \<forall>b \<in> set ?xs. above_half (words_of a) (words_of b))"
    by code_simp
  have b4: "spec_best_representative (hd ?xs) (tl ?xs) = ex_pictured" by code_simp
  have w4: "\<exists>y. dedup_by_title ?xs = Inr [y] \<and>
          y\<lparr>also_reported_by := []\<rparr> = ex_pictured\<lparr>also_reported_by := []\<rparr>"
    using cluster [OF h4] by (simp only: b4)
  let ?ys = "[ex_alpha, ex_pictured]"
  let ?st = "scan_start ex_alpha"
  have r: "(0::nat) < length ?ys \<and> (1::nat) < length ?ys \<and> (1::nat) \<notin> st_used ?st \<and>
           above_half (st_words_i ?st) (words_of (?ys ! 1))"
    by code_simp
  have i5: "image_url (?ys ! 1) \<noteq> [] \<and> image_url (st_article ?st) = []" by code_simp
  have n5: "?ys ! 1 = ex_pictured" by simp
  from step [OF r] obtain st' where st': "merge_step ?ys 0 1 ?st = Inr st'"
    "image_url (?ys ! 1) \<noteq> [] \<and> image_url (st_article ?st) = []
       \<longrightarrow> st_article st' = (?ys ! 1)\<lparr>also_reported_by := []\<rparr>"
    by (elim exE conjE)
  from st'(2) i5 have "st_article st' = (?ys ! 1)\<lparr>also_reported_by := []\<rparr>" by (rule mp)
  then have "st_article st' = ex_pictured\<lparr>also_reported_by := []\<rparr>" by (simp only: n5)
  with st'(1) have w5: "\<exists>st'. merge_step ?ys 0 1 ?st = Inr st' \<and>
          st_article st' = ex_pictured\<lparr>also_reported_by := []\<rparr>"
    by (intro exI conjI)
  have "image_url ex_gamma = [] \<and> image_url ex_pictured \<noteq> []
        \<or> ((image_url ex_gamma = []) = (image_url ex_pictured = []))
           \<and> length (description ex_gamma) < length (description ex_pictured)"
    using i2 by (rule disjI1)
  with order [of ex_gamma ex_pictured] have s: "rep_score ex_gamma < rep_score ex_pictured"
    by (rule iffD2)
  show ?thesis by (intro conjI) (fact e w1 d w2 w3 w4 w5 s)+
qed

text \<open>
  C2: the specification has the swap append the source of the representative that is
  being replaced. The loop appends the source of \<^verbatim>\<open>articles[i]\<close>, the first
  article of the cluster, at every swap. In a cluster of three reports from Alpha, Beta
  and Gamma in which each later report wins, the first swap leaves Beta's article as
  the representative; the second swap replaces it by Gamma's and extends the list by
  Gamma and then Alpha. Beta, the source of the representative replaced, is not what
  the second swap appends.
\<close>

theorem second_swap_appends_first_source:
  "map_sum id (\<lambda>st. (source (st_article st), st_also_reported_by st))
     (scan [ex_alpha, ex_beta, ex_gamma] 0 [1] (scan_start ex_alpha))
     = Inr (''Beta'', [''Beta'', ''Alpha'']) \<and>
   map_sum id (\<lambda>st. (source (st_article st), st_also_reported_by st))
     (scan [ex_alpha, ex_beta, ex_gamma] 0 [1, 2] (scan_start ex_alpha))
     = Inr (''Gamma'', [''Beta'', ''Alpha'', ''Gamma'', ''Alpha'']) \<and>
   dedup_by_title (dedup_by_url [ex_alpha, ex_beta, ex_gamma])
     = Inr [ex_gamma\<lparr>also_reported_by := [''Beta'', ''Alpha'', ''Gamma'', ''Alpha'']\<rparr>]"
  by code_simp

text \<open>
  C3: the specification has no entry of \<^verbatim>\<open>also_reported_by\<close> equal to the
  surviving article's own source. The loop appends the source of article \<open>j\<close> before
  it decides whether \<open>j\<close> becomes the representative. Two reports of one story, the
  second with an image: the second survives, and its own source Beta is the first entry
  of its list.
\<close>

theorem survivor_lists_own_source:
  "dedup_by_title (dedup_by_url [ex_alpha, ex_pictured])
     = Inr [ex_pictured\<lparr>also_reported_by := [''Beta'', ''Alpha'']\<rparr>] \<and>
   source ex_pictured \<in> set [''Beta'', ''Alpha'']"
  by code_simp

subsection \<open>Reranking\<close>

lemma rerank_Nil: "rerank [] = []"
  by (simp add: rerank_def)

lemma rerank_mset: "mset (rerank xs) = mset xs"
  by (simp add: rerank_def)

lemma rerank_sorted: "sorted_wrt (\<lambda>a b. score b \<le> score a) (rerank xs)"
proof -
  have "sorted (map score (sort_key score (rev xs)))" by (rule sorted_sort_key)
  then have "sorted_wrt (\<lambda>a b. score a \<le> score b) (sort_key score (rev xs))"
    by (simp add: sorted_map)
  then show ?thesis by (simp add: rerank_def sorted_wrt_rev)
qed

lemma rerank_stable: "filter (\<lambda>a. score a = k) (rerank xs) = filter (\<lambda>a. score a = k) xs"
proof -
  have "filter (\<lambda>a. score a = k) (rerank xs)
          = rev (filter (\<lambda>a. score a = k) (sort_key score (rev xs)))"
    by (simp add: rerank_def rev_filter)
  also have "\<dots> = rev (filter (\<lambda>a. score a = k) (rev xs))"
    by (simp only: sort_key_stable)
  also have "\<dots> = filter (\<lambda>a. score a = k) xs"
    by (simp add: rev_filter)
  finally show ?thesis .
qed

text \<open>
  C7: the ranker returns a permutation of its input, sorted in descending order of the
  pair of the number of cross-references and the timestamp string; articles with equal
  pairs keep their input order. Pairs are compared by the count first and then by the
  string, and an empty timestamp is lowest among equal counts.
\<close>

theorem rerank_stable_descending:
  "mset (rerank xs) = mset xs \<and>
   sorted_wrt (\<lambda>a b. score b \<le> score a) (rerank xs) \<and>
   (\<forall>k. filter (\<lambda>a. score a = k) (rerank xs) = filter (\<lambda>a. score a = k) xs) \<and>
   (\<forall>a b. score a \<le> score b \<longleftrightarrow>
      length (also_reported_by a) < length (also_reported_by b) \<or>
      (length (also_reported_by a) = length (also_reported_by b) \<and> published_at a \<le> published_at b)) \<and>
   (\<forall>a. score (a\<lparr>published_at := []\<rparr>) \<le> score a)"
proof -
  have "\<forall>a b. score a \<le> score b \<longleftrightarrow>
      length (also_reported_by a) < length (also_reported_by b) \<or>
      (length (also_reported_by a) = length (also_reported_by b) \<and> published_at a \<le> published_at b)"
    by (auto simp: score_def)
  moreover have "\<forall>a. score (a\<lparr>published_at := []\<rparr>) \<le> score a"
    by (simp add: score_def)
  ultimately show ?thesis
    using rerank_mset [of xs] rerank_sorted [of xs] rerank_stable [of _ xs] by blast
qed

theorem rerank_stable_descending_witness:
  "rerank [ex_storm, ex_beta, ex_fed_frag, ex_gamma\<lparr>also_reported_by := [''Alpha'']\<rparr>, ex_alpha]
     = [ex_gamma\<lparr>also_reported_by := [''Alpha'']\<rparr>, ex_beta, ex_alpha, ex_storm, ex_fed_frag] \<and>
   filter (\<lambda>a. score a = (0, [])) 
      (rerank [ex_storm, ex_beta, ex_fed_frag, ex_gamma\<lparr>also_reported_by := [''Alpha'']\<rparr>, ex_alpha])
     = [ex_storm, ex_fed_frag]"
proof -
  let ?xs = "[ex_storm, ex_beta, ex_fed_frag, ex_gamma\<lparr>also_reported_by := [''Alpha'']\<rparr>, ex_alpha]"
  have r: "rerank ?xs = [ex_gamma\<lparr>also_reported_by := [''Alpha'']\<rparr>, ex_beta, ex_alpha, ex_storm, ex_fed_frag]"
    by code_simp
  have f: "filter (\<lambda>a. score a = (0, [])) ?xs = [ex_storm, ex_fed_frag]"
    by code_simp
  have "filter (\<lambda>a. score a = (0, [])) (rerank ?xs) = filter (\<lambda>a. score a = (0, [])) ?xs"
    using rerank_stable_descending [of ?xs] by blast
  then show ?thesis using r f by simp
qed

subsection \<open>The handler\<close>

lemma effective_limit_range: "1 \<le> effective_limit p \<and> effective_limit p \<le> 8"
  by (simp add: effective_limit_def)

lemma effective_limit_cases:
  "effective_limit p =
     (case p_limit p of
        None \<Rightarrow> 5
      | Some l \<Rightarrow> if l = 0 then 5 else if l < 1 then 1 else if 8 < l then 8 else l)"
  by (simp add: effective_limit_def split: option.splits)

lemma execute_cases:
  assumes "dedup_by_title (dedup_by_url (raw_articles f)) = Inr td"
  shows "\<exists>resp. execute p f = Inr resp \<and>
           r_count resp = length (r_results resp) \<and>
           (r_results resp = [] \<and> r_meta resp = None \<or>
            r_results resp = take (nat (effective_limit p)) (rerank td) \<and>
            (\<exists>m. r_meta resp = Some m \<and>
                 m_article_count_raw m = length (raw_articles f) \<and>
                 m_article_count_deduped m = length td \<and>
                 m_dedup_removed m = int (length (raw_articles f)) - int (length td) \<and>
                 m_image_count m = length (filter (\<lambda>r. image_url r \<noteq> []) (r_results resp))))"
  using assms by (simp add: execute_def Let_def)

text \<open>
  C8: on the empty list each stage returns the empty list and raises nothing, and the
  handler returns no results, count zero, no error and zero counts in \<^verbatim>\<open>_meta\<close>.
  On every input, degenerate or not, title deduplication and the handler return a
  result and raise nothing; the other two stages have no operation that can raise.
\<close>

theorem empty_input_empty_output:
  "dedup_by_url [] = [] \<and> dedup_by_title [] = Inr [] \<and> rerank [] = [] \<and>
   (\<exists>resp. execute p (f\<lparr>raw_articles := [], fetch_error := None\<rparr>) = Inr resp \<and>
      r_results resp = [] \<and> r_count resp = 0 \<and> r_error resp = None \<and>
      (case r_meta resp of
         None \<Rightarrow> True
       | Some m \<Rightarrow> m_article_count_raw m = 0 \<and> m_article_count_deduped m = 0 \<and>
                   m_dedup_removed m = 0 \<and> m_image_count m = 0 \<and> m_source_diversity m = 0)) \<and>
   (\<exists>ys. dedup_by_title xs = Inr ys) \<and>
   (\<exists>resp. execute p f = Inr resp)"
proof -
  have "\<exists>resp. execute p (f\<lparr>raw_articles := [], fetch_error := None\<rparr>) = Inr resp \<and>
      r_results resp = [] \<and> r_count resp = 0 \<and> r_error resp = None \<and>
      (case r_meta resp of
         None \<Rightarrow> True
       | Some m \<Rightarrow> m_article_count_raw m = 0 \<and> m_article_count_deduped m = 0 \<and>
                   m_dedup_removed m = 0 \<and> m_image_count m = 0 \<and> m_source_diversity m = 0)"
    by (simp add: execute_def Let_def dedup_by_url_Nil dedup_by_title_Nil rerank_Nil)
  moreover have "\<exists>resp. execute p f = Inr resp"
  proof -
    obtain td where "dedup_by_title (dedup_by_url (raw_articles f)) = Inr td"
      using dedup_by_title_Inr by blast
    from execute_cases [OF this, of p] show ?thesis by blast
  qed
  ultimately show ?thesis
    using dedup_by_url_Nil dedup_by_title_Nil rerank_Nil dedup_by_title_Inr [of xs] by blast
qed

theorem empty_input_empty_output_witness:
  "execute ex_params (ex_fetch\<lparr>raw_articles := [], fetch_error := None\<rparr>)
     = Inr \<lparr>r_results = [], r_count = 0, r_query = ''fed rates'', r_error = None,
            r_meta = Some \<lparr>m_fetch_latency_ms = 120, m_article_count_raw = 0,
                           m_article_count_deduped = 0, m_dedup_removed = 0, m_image_count = 0,
                           m_retry_used = False, m_source_diversity = 0\<rparr>\<rparr>"
proof -
  obtain resp where r: "execute ex_params (ex_fetch\<lparr>raw_articles := [], fetch_error := None\<rparr>) = Inr resp"
    and e: "r_results resp = []" "r_count resp = 0" "r_error resp = None"
    using empty_input_empty_output [of ex_params ex_fetch] by blast
  have q: "map_sum id (\<lambda>r. (r_query r, r_meta r))
             (execute ex_params (ex_fetch\<lparr>raw_articles := [], fetch_error := None\<rparr>))
           = Inr (''fed rates'', Some \<lparr>m_fetch_latency_ms = 120, m_article_count_raw = 0,
                           m_article_count_deduped = 0, m_dedup_removed = 0, m_image_count = 0,
                           m_retry_used = False, m_source_diversity = 0\<rparr>)"
    by code_simp
  show ?thesis using r e q by simp
qed

text \<open>
  C10: for every \<^verbatim>\<open>params\<close> and every fetch outcome the handler returns a
  response whose count is the length of its results, and that length is at most the
  effective limit. The effective limit is the requested one clamped to 1..8, and 5 when
  the limit is absent (or zero). When the stages ran, the results are the first
  \<open>limit\<close> articles of the ranked list: the cut comes after ranking.
\<close>

theorem execute_count_and_limit:
  "\<exists>resp td.
     execute p f = Inr resp \<and>
     dedup_by_title (dedup_by_url (raw_articles f)) = Inr td \<and>
     r_count resp = length (r_results resp) \<and>
     int (length (r_results resp)) \<le> effective_limit p \<and>
     1 \<le> effective_limit p \<and> effective_limit p \<le> 8 \<and>
     effective_limit p =
       (case p_limit p of
          None \<Rightarrow> 5
        | Some l \<Rightarrow> if l = 0 then 5 else if l < 1 then 1 else if 8 < l then 8 else l) \<and>
     (r_meta resp \<noteq> None \<longrightarrow> r_results resp = take (nat (effective_limit p)) (rerank td))"
proof -
  obtain td where td: "dedup_by_title (dedup_by_url (raw_articles f)) = Inr td"
    using dedup_by_title_Inr by blast
  obtain resp where resp: "execute p f = Inr resp" "r_count resp = length (r_results resp)"
    and shape: "r_results resp = [] \<and> r_meta resp = None \<or>
                r_results resp = take (nat (effective_limit p)) (rerank td)"
    using execute_cases [OF td, of p] by blast
  have range: "1 \<le> effective_limit p" "effective_limit p \<le> 8"
    using effective_limit_range [of p] by simp_all
  have "int (length (r_results resp)) \<le> effective_limit p"
    using shape range by auto
  moreover have "r_meta resp \<noteq> None \<longrightarrow> r_results resp = take (nat (effective_limit p)) (rerank td)"
    using shape by auto
  ultimately show ?thesis
    using td resp range effective_limit_cases [of p] by blast
qed

theorem execute_count_and_limit_witness:
  "\<exists>resp. execute ex_params ex_fetch = Inr resp \<and>
          r_results resp = [ex_beta\<lparr>also_reported_by := [''Beta'', ''Alpha'']\<rparr>, ex_storm] \<and>
          r_count resp = 2 \<and> r_meta resp \<noteq> None \<and> effective_limit ex_params = 2"
proof -
  obtain resp where r: "execute ex_params ex_fetch = Inr resp"
    and c: "r_count resp = length (r_results resp)"
    using execute_count_and_limit [of ex_params ex_fetch] by blast
  have "map_sum id (\<lambda>r. (r_results r, r_meta r \<noteq> None)) (execute ex_params ex_fetch)
          = Inr ([ex_beta\<lparr>also_reported_by := [''Beta'', ''Alpha'']\<rparr>, ex_storm], True)"
    by code_simp
  then have e: "r_results resp = [ex_beta\<lparr>also_reported_by := [''Beta'', ''Alpha'']\<rparr>, ex_storm]"
    "r_meta resp \<noteq> None"
    using r by simp_all
  have l: "effective_limit ex_params = 2" by code_simp
  show ?thesis using r c e l by simp
qed

end
